theory Spec2Isabelle
  imports Main "HOL-Library.Word"
begin

section \<open>The result cursor of tuplex (core/src/physical/ResultSet.cc)\<close>

text \<open>
  \<^verbatim>\<open>ResultSet\<close> merges two streams into one ordered stream of rows: partitions (blocks
  of serialized rows, held by pointer) and tagged fallback rows (pairs of a logical row
  index and a foreign object). The cursor is modelled by explicit state passing: a
  record of its member variables, and a store that maps the address of a partition to
  the partition object, since the cursor shares the partitions with the pool that owns
  them and changes them only through \<^verbatim>\<open>invalidate()\<close>.

  Counters are natural numbers. The widths of the member variables are those of the
  declarations in \<^verbatim>\<open>ResultSet.h\<close>; every counter moves by steps of one (or of one
  partition's row count), so a wrap-around needs more than \<open>2 ^ 63\<close> rows, and no
  statement below reads a counter after such a run.
\<close>

subsection \<open>Partitions and the store\<close>

type_synonym addr = nat
type_synonym byte = "8 word"

text \<open>
  A partition as the cursor uses it: \<^verbatim>\<open>getNumRows()\<close>, \<^verbatim>\<open>schema()\<close>, the
  locked buffer with its \<^verbatim>\<open>capacity()\<close>, and \<^verbatim>\<open>invalidate()\<close>. The class
  itself is declared outside the source file. The field \<open>invalidations\<close> counts the calls of
  \<^verbatim>\<open>invalidate()\<close> the partition has received.
\<close>

record 'schema Partition =
  numRows :: nat
  pschema :: 'schema
  memory :: "byte list"
  invalidations :: nat

definition getNumRows :: "'schema Partition \<Rightarrow> nat" where
  "getNumRows p = numRows p"

definition capacity :: "'schema Partition \<Rightarrow> nat" where
  "capacity p = length (memory p)"

text \<open>
  Modelled from the spec: \<^verbatim>\<open>Partition::invalidate()\<close>, "an invalidation operation
  that releases it back to its owning pool". The model records the call; the buffer is
  left as it is.
\<close>

definition invalidate :: "'schema Partition \<Rightarrow> 'schema Partition" where
  "invalidate p = p\<lparr>invalidations := Suc (invalidations p)\<rparr>"

type_synonym 'schema store = "addr \<Rightarrow> 'schema Partition option"

text \<open>
  The collaborators of the cursor that are defined elsewhere, as parameters:
  \<^verbatim>\<open>Row::fromMemory(schema, ptr, size)\<close>, \<^verbatim>\<open>Row::serializedLength()\<close>,
  \<^verbatim>\<open>python::pythonToRow(obj)\<close> and the default row \<^verbatim>\<open>Row()\<close>.
\<close>

record ('schema, 'obj, 'row) runtime =
  fromMemory :: "'schema \<Rightarrow> byte list \<Rightarrow> nat \<Rightarrow> 'row"
  serializedLength :: "'row \<Rightarrow> nat"
  pythonToRow :: "'obj \<Rightarrow> 'row"
  emptyRow :: 'row

subsection \<open>The cursor\<close>

record ('schema, 'obj) ResultSet =
  partitions :: "addr list"
  exceptions :: "addr list"
  pyobjects :: "(nat \<times> 'obj) list"
  curRowCounter :: nat
  byteCounter :: nat
  rowsRetrieved :: nat
  totalRowCounter :: nat
  maxRows :: nat
  schema :: 'schema

text \<open>
  A failed \<^verbatim>\<open>assert\<close>, the dereference of a pointer that addresses no partition
  (the null pointer among them) and a read at an offset past the end of a partition's
  buffer end the call; they are the three error values. The last two are undefined
  behaviour in the source, which checks neither. Assertions are modelled as compiled in
  (no \<^verbatim>\<open>NDEBUG\<close>); in every example below they hold, so the example runs the same in
  a build without them.
\<close>

datatype error = AssertionFailed | InvalidPointer | OutOfBounds

definition INT64_MAX :: nat where
  "INT64_MAX = 9223372036854775807"

text \<open>The constructor (lines 15-31). \<open>maxRows\<close> is an \<^verbatim>\<open>int64_t\<close>.\<close>

definition mkResultSet ::
  "'schema \<Rightarrow> addr list \<Rightarrow> addr list \<Rightarrow> (nat \<times> 'obj) list \<Rightarrow> int \<Rightarrow> ('schema, 'obj) ResultSet" where
  "mkResultSet sch parts excs objs maxR =
     \<lparr>partitions = parts,
      exceptions = excs,
      pyobjects = objs,
      curRowCounter = 0,
      byteCounter = 0,
      rowsRetrieved = 0,
      totalRowCounter = 0,
      maxRows = (if maxR < 0 then INT64_MAX else nat maxR),
      schema = sch\<rparr>"

text \<open>The two loops of \<^verbatim>\<open>clear()\<close>: \<^verbatim>\<open>for(auto partition : ps) partition->invalidate();\<close>\<close>

fun invalidateAll :: "'schema store \<Rightarrow> addr list \<Rightarrow> error + 'schema store" where
  "invalidateAll h [] = Inr h"
| "invalidateAll h (a # as) =
     (case h a of
        None \<Rightarrow> Inl InvalidPointer
      | Some p \<Rightarrow> invalidateAll (h(a \<mapsto> invalidate p)) as)"

text \<open>\<^verbatim>\<open>clear()\<close> (lines 33-44).\<close>

definition clear ::
  "'schema store \<Rightarrow> ('schema, 'obj) ResultSet \<Rightarrow> error + ('schema store \<times> ('schema, 'obj) ResultSet)" where
  "clear h s =
     (case invalidateAll h (partitions s) of
        Inl e \<Rightarrow> Inl e
      | Inr h1 \<Rightarrow>
          (case invalidateAll h1 (exceptions s) of
             Inl e \<Rightarrow> Inl e
           | Inr h2 \<Rightarrow>
               Inr (h2, s\<lparr>partitions := [],
                          curRowCounter := 0,
                          byteCounter := 0,
                          maxRows := 0,
                          rowsRetrieved := 0\<rparr>)))"

text \<open>\<^verbatim>\<open>hasNextRow()\<close> (lines 46-70).\<close>

definition hasNextRow :: "'schema store \<Rightarrow> ('schema, 'obj) ResultSet \<Rightarrow> error + bool" where
  "hasNextRow h s =
     (if rowsRetrieved s \<ge> maxRows s then Inr False
      else if partitions s = [] \<and> pyobjects s = [] then Inr False
      else if partitions s = [] then Inr True
      else if pyobjects s = [] then
        (case h (hd (partitions s)) of
           None \<Rightarrow> Inl AssertionFailed
         | Some p \<Rightarrow> Inr (curRowCounter s < getNumRows p))
      else Inr True)"

text \<open>\<^verbatim>\<open>hasNextPartition()\<close> (lines 73-88).\<close>

definition hasNextPartition :: "'schema store \<Rightarrow> ('schema, 'obj) ResultSet \<Rightarrow> error + bool" where
  "hasNextPartition h s =
     (if rowsRetrieved s \<ge> maxRows s then Inr False
      else if partitions s = [] then Inr False
      else
        (case h (hd (partitions s)) of
           None \<Rightarrow> Inl AssertionFailed
         | Some p \<Rightarrow> Inr (curRowCounter s < getNumRows p)))"

text \<open>
  \<^verbatim>\<open>getNextPartition()\<close> (lines 90-107). The result is the pointer popped, or
  \<open>None\<close> for \<^verbatim>\<open>nullptr\<close>.
\<close>

definition getNextPartition ::
  "'schema store \<Rightarrow> ('schema, 'obj) ResultSet \<Rightarrow> error + (addr option \<times> ('schema, 'obj) ResultSet)" where
  "getNextPartition h s =
     (case partitions s of
        [] \<Rightarrow> Inr (None, s)
      | first # rest \<Rightarrow>
          (case h first of
             None \<Rightarrow> Inl InvalidPointer
           | Some p \<Rightarrow>
               if schema s \<noteq> pschema p then Inl AssertionFailed
               else Inr (Some first,
                         s\<lparr>rowsRetrieved := rowsRetrieved s + getNumRows p,
                           partitions := rest,
                           curRowCounter := 0,
                           byteCounter := 0\<rparr>)))"

text \<open>\<^verbatim>\<open>removeFirstPartition()\<close> (lines 181-196).\<close>

definition removeFirstPartition ::
  "'schema store \<Rightarrow> ('schema, 'obj) ResultSet \<Rightarrow> error + ('schema store \<times> ('schema, 'obj) ResultSet)" where
  "removeFirstPartition h s =
     (case partitions s of
        [] \<Rightarrow> Inl AssertionFailed
      | first # rest \<Rightarrow>
          (case h first of
             None \<Rightarrow> Inl AssertionFailed
           | Some p \<Rightarrow>
               Inr (h(first \<mapsto> invalidate p),
                    s\<lparr>partitions := rest, curRowCounter := 0, byteCounter := 0\<rparr>)))"

text \<open>
  The first half of \<^verbatim>\<open>getNextRow()\<close> (lines 111-137): the front tagged row is
  converted and popped. \<open>row_number\<close> and \<open>obj\<close> are the components of the front
  element, \<open>rest\<close> is the queue after \<^verbatim>\<open>pop_front()\<close>.
\<close>

definition emitPyObject ::
  "('schema, 'obj, 'row) runtime \<Rightarrow> ('schema, 'obj) ResultSet \<Rightarrow> nat \<Rightarrow> 'obj \<Rightarrow> (nat \<times> 'obj) list
     \<Rightarrow> 'row \<times> ('schema, 'obj) ResultSet" where
  "emitPyObject c s row_number obj rest =
     (let row = pythonToRow c obj;
          s1 = s\<lparr>pyobjects := rest, rowsRetrieved := rowsRetrieved s + 1\<rparr>;
          s2 = (if pyobjects s1 = [] then s1\<lparr>totalRowCounter := totalRowCounter s1 + 1\<rparr>
                else if fst (hd (pyobjects s1)) \<noteq> row_number
                     then s1\<lparr>totalRowCounter := totalRowCounter s1 + 1\<rparr>
                     else s1)
      in (row, s2))"

text \<open>
  The second half of \<^verbatim>\<open>getNextRow()\<close> (lines 139-170): one row is decoded from the
  front partition at the byte offset. Line 155 passes the pointer \<^verbatim>\<open>ptr + _byteCounter\<close>
  and the size \<^verbatim>\<open>first->capacity() - _byteCounter\<close>, a subtraction in \<^verbatim>\<open>size_t\<close>.
  With the offset past the capacity the pointer lies outside the buffer and the size has
  wrapped around to nearly \<open>2 ^ 64\<close>: the read is out of bounds, and the call ends with
  \<open>OutOfBounds\<close>. With the offset within the capacity the subtraction does not wrap, and
  the decoder is handed the rest of the buffer and its length.
\<close>

definition readPartitionRow ::
  "('schema, 'obj, 'row) runtime \<Rightarrow> 'schema store \<Rightarrow> ('schema, 'obj) ResultSet
     \<Rightarrow> error + ('row \<times> 'schema store \<times> ('schema, 'obj) ResultSet)" where
  "readPartitionRow c h s =
     (case partitions s of
        [] \<Rightarrow> Inr (emptyRow c, h, s)
      | first # rest \<Rightarrow>
          (case h first of
             None \<Rightarrow> Inl InvalidPointer
           | Some p \<Rightarrow>
               if schema s \<noteq> pschema p then Inl AssertionFailed
               else if capacity p < byteCounter s then Inl OutOfBounds
               else
                 let row = fromMemory c (schema s) (drop (byteCounter s) (memory p))
                             (capacity p - byteCounter s);
                     s1 = s\<lparr>byteCounter := byteCounter s + serializedLength c row,
                            curRowCounter := curRowCounter s + 1,
                            rowsRetrieved := rowsRetrieved s + 1,
                            totalRowCounter := totalRowCounter s + 1\<rparr>
                 in if curRowCounter s1 = getNumRows p then
                      (case removeFirstPartition h s1 of
                         Inl e \<Rightarrow> Inl e
                       | Inr (h2, s2) \<Rightarrow> Inr (row, h2, s2))
                    else Inr (row, h, s1)))"

text \<open>\<^verbatim>\<open>getNextRow()\<close> (lines 109-171).\<close>

definition getNextRow ::
  "('schema, 'obj, 'row) runtime \<Rightarrow> 'schema store \<Rightarrow> ('schema, 'obj) ResultSet
     \<Rightarrow> error + ('row \<times> 'schema store \<times> ('schema, 'obj) ResultSet)" where
  "getNextRow c h s =
     (case pyobjects s of
        [] \<Rightarrow> readPartitionRow c h s
      | (row_number, obj) # rest \<Rightarrow>
          if partitions s = [] \<or> row_number \<le> totalRowCounter s then
            (case emitPyObject c s row_number obj rest of (row, s2) \<Rightarrow> Inr (row, h, s2))
          else readPartitionRow c h s)"

text \<open>\<^verbatim>\<open>rowCount()\<close> (lines 173-179).\<close>

fun sumNumRows :: "'schema store \<Rightarrow> addr list \<Rightarrow> nat \<Rightarrow> error + nat" where
  "sumNumRows h [] count = Inr count"
| "sumNumRows h (a # as) count =
     (case h a of
        None \<Rightarrow> Inl InvalidPointer
      | Some p \<Rightarrow> sumNumRows h as (count + getNumRows p))"

definition rowCount :: "'schema store \<Rightarrow> ('schema, 'obj) ResultSet \<Rightarrow> error + nat" where
  "rowCount h s =
     (case sumNumRows h (partitions s) 0 of
        Inl e \<Rightarrow> Inl e
      | Inr count \<Rightarrow> Inr (count + length (pyobjects s)))"


subsection \<open>Sequences of calls\<close>

text \<open>\<open>n\<close> consecutive calls of \<^verbatim>\<open>getNextRow()\<close>, with the rows they return in order.\<close>

fun pullRows ::
  "('schema, 'obj, 'row) runtime \<Rightarrow> nat \<Rightarrow> 'schema store \<Rightarrow> ('schema, 'obj) ResultSet
     \<Rightarrow> error + ('row list \<times> 'schema store \<times> ('schema, 'obj) ResultSet)" where
  "pullRows c 0 h s = Inr ([], h, s)"
| "pullRows c (Suc n) h s =
     (case getNextRow c h s of
        Inl e \<Rightarrow> Inl e
      | Inr (row, h1, s1) \<Rightarrow>
          (case pullRows c n h1 s1 of
             Inl e \<Rightarrow> Inl e
           | Inr (rows, h2, s2) \<Rightarrow> Inr (row # rows, h2, s2)))"

text \<open>
  The consumer's loop \<^verbatim>\<open>while(rs.hasNextRow()) rows.push_back(rs.getNextRow());\<close>, cut
  after \<open>n\<close> rounds.
\<close>

fun guardedPulls ::
  "('schema, 'obj, 'row) runtime \<Rightarrow> nat \<Rightarrow> 'schema store \<Rightarrow> ('schema, 'obj) ResultSet
     \<Rightarrow> error + ('row list \<times> 'schema store \<times> ('schema, 'obj) ResultSet)" where
  "guardedPulls c 0 h s = Inr ([], h, s)"
| "guardedPulls c (Suc n) h s =
     (case hasNextRow h s of
        Inl e \<Rightarrow> Inl e
      | Inr b \<Rightarrow>
          if \<not> b then Inr ([], h, s)
          else
            (case getNextRow c h s of
               Inl e \<Rightarrow> Inl e
             | Inr (row, h1, s1) \<Rightarrow>
                 (case guardedPulls c n h1 s1 of
                    Inl e \<Rightarrow> Inl e
                  | Inr (rows, h2, s2) \<Rightarrow> Inr (row # rows, h2, s2))))"

text \<open>
  The number of calls among \<open>n\<close> consecutive calls of \<^verbatim>\<open>getNextRow()\<close> that do not end at
  \<^verbatim>\<open>return Row();\<close> (line 141): the successful ones.
\<close>

fun successfulPulls ::
  "('schema, 'obj, 'row) runtime \<Rightarrow> nat \<Rightarrow> 'schema store \<Rightarrow> ('schema, 'obj) ResultSet \<Rightarrow> nat" where
  "successfulPulls c 0 h s = 0"
| "successfulPulls c (Suc n) h s =
     (case getNextRow c h s of
        Inl e \<Rightarrow> 0
      | Inr (row, h1, s1) \<Rightarrow>
          (if partitions s = [] \<and> pyobjects s = [] then 0 else 1) + successfulPulls c n h1 s1)"

text \<open>The public member functions, and a sequence of calls of them on one cursor.\<close>

datatype call = GetNextRow | GetNextPartition | HasNextRow | HasNextPartition | RowCount | Clear

fun exec ::
  "('schema, 'obj, 'row) runtime \<Rightarrow> call \<Rightarrow> 'schema store \<Rightarrow> ('schema, 'obj) ResultSet
     \<Rightarrow> error + ('schema store \<times> ('schema, 'obj) ResultSet)" where
  "exec c GetNextRow h s =
     (case getNextRow c h s of Inl e \<Rightarrow> Inl e | Inr (row, h1, s1) \<Rightarrow> Inr (h1, s1))"
| "exec c GetNextPartition h s =
     (case getNextPartition h s of Inl e \<Rightarrow> Inl e | Inr (r, s1) \<Rightarrow> Inr (h, s1))"
| "exec c HasNextRow h s =
     (case hasNextRow h s of Inl e \<Rightarrow> Inl e | Inr b \<Rightarrow> Inr (h, s))"
| "exec c HasNextPartition h s =
     (case hasNextPartition h s of Inl e \<Rightarrow> Inl e | Inr b \<Rightarrow> Inr (h, s))"
| "exec c RowCount h s =
     (case rowCount h s of Inl e \<Rightarrow> Inl e | Inr n \<Rightarrow> Inr (h, s))"
| "exec c Clear h s = clear h s"

fun execAll ::
  "('schema, 'obj, 'row) runtime \<Rightarrow> call list \<Rightarrow> 'schema store \<Rightarrow> ('schema, 'obj) ResultSet
     \<Rightarrow> error + ('schema store \<times> ('schema, 'obj) ResultSet)" where
  "execAll c [] h s = Inr (h, s)"
| "execAll c (x # xs) h s =
     (case exec c x h s of Inl e \<Rightarrow> Inl e | Inr (h1, s1) \<Rightarrow> execAll c xs h1 s1)"

text \<open>
  A sequence of calls follows the pull protocol when it calls \<^verbatim>\<open>getNextRow()\<close> only in
  a state where \<^verbatim>\<open>hasNextRow()\<close> is true, and does not take whole partitions.
\<close>

fun guarded ::
  "('schema, 'obj, 'row) runtime \<Rightarrow> call list \<Rightarrow> 'schema store \<Rightarrow> ('schema, 'obj) ResultSet \<Rightarrow> bool" where
  "guarded c [] h s = True"
| "guarded c (x # xs) h s =
     ((if x = GetNextRow then hasNextRow h s = Inr True else x \<noteq> GetNextPartition) \<and>
      (case exec c x h s of Inl e \<Rightarrow> True | Inr (h1, s1) \<Rightarrow> guarded c xs h1 s1))"

subsection \<open>The rows of a partition\<close>

text \<open>
  The rows a partition stores are the rows \<^verbatim>\<open>Row::fromMemory\<close> decodes from its buffer,
  one behind the other from offset 0, \<^verbatim>\<open>getNumRows()\<close> of them. They are the rows of
  the partition when each of them lies within the buffer (\<open>rowsInBounds\<close> below).
\<close>

fun decodeRows ::
  "('schema, 'obj, 'row) runtime \<Rightarrow> 'schema \<Rightarrow> 'schema Partition \<Rightarrow> nat \<Rightarrow> nat \<Rightarrow> 'row list" where
  "decodeRows c sch p off 0 = []"
| "decodeRows c sch p off (Suc n) =
     (let row = fromMemory c sch (drop off (memory p)) (capacity p - off)
      in row # decodeRows c sch p (off + serializedLength c row) n)"

definition partitionRows ::
  "('schema, 'obj, 'row) runtime \<Rightarrow> 'schema \<Rightarrow> 'schema store \<Rightarrow> addr \<Rightarrow> 'row list" where
  "partitionRows c sch h a =
     (case h a of None \<Rightarrow> [] | Some p \<Rightarrow> decodeRows c sch p 0 (getNumRows p))"

text \<open>
  The contract of a partition's content: decoded one behind the other from the offset
  \<open>off\<close>, each of the next \<open>n\<close> rows ends within the capacity, so that no read starts
  past the buffer.
\<close>

fun rowsInBounds ::
  "('schema, 'obj, 'row) runtime \<Rightarrow> 'schema \<Rightarrow> 'schema Partition \<Rightarrow> nat \<Rightarrow> nat \<Rightarrow> bool" where
  "rowsInBounds c sch p off 0 = True"
| "rowsInBounds c sch p off (Suc n) =
     (let row = fromMemory c sch (drop off (memory p)) (capacity p - off)
      in off + serializedLength c row \<le> capacity p
         \<and> rowsInBounds c sch p (off + serializedLength c row) n)"

text \<open>The rows of the partition queue that the cursor has not read yet.\<close>

definition unreadRows ::
  "('schema, 'obj, 'row) runtime \<Rightarrow> 'schema store \<Rightarrow> ('schema, 'obj) ResultSet \<Rightarrow> 'row list" where
  "unreadRows c h s =
     (case partitions s of
        [] \<Rightarrow> []
      | first # rest \<Rightarrow>
          (case h first of
             None \<Rightarrow> []
           | Some p \<Rightarrow> decodeRows c (schema s) p (byteCounter s) (getNumRows p - curRowCounter s))
          @ concat (map (partitionRows c (schema s) h) rest))"

text \<open>
  A pointer of the queue is in order when it addresses a partition of the cursor's schema
  that holds at least one row; the queue is in order when all its pointers are and the
  row offset lies inside the front partition.
\<close>

definition partitionOk :: "'schema \<Rightarrow> 'schema store \<Rightarrow> addr \<Rightarrow> bool" where
  "partitionOk sch h a =
     (case h a of None \<Rightarrow> False | Some p \<Rightarrow> pschema p = sch \<and> 0 < getNumRows p)"

definition queueOk :: "'schema store \<Rightarrow> ('schema, 'obj) ResultSet \<Rightarrow> bool" where
  "queueOk h s =
     (list_all (partitionOk (schema s) h) (partitions s) \<and>
      (case partitions s of
         [] \<Rightarrow> True
       | first # rest \<Rightarrow>
           (case h first of None \<Rightarrow> False | Some p \<Rightarrow> curRowCounter s < getNumRows p)))"

text \<open>
  The unread rows of the queue lie within their buffers: those of the front partition
  from the byte offset on, those of the partitions behind it from offset 0 on.
\<close>

definition partitionFits ::
  "('schema, 'obj, 'row) runtime \<Rightarrow> 'schema \<Rightarrow> 'schema store \<Rightarrow> addr \<Rightarrow> bool" where
  "partitionFits c sch h a =
     (case h a of None \<Rightarrow> False | Some p \<Rightarrow> rowsInBounds c sch p 0 (getNumRows p))"

definition queueFits ::
  "('schema, 'obj, 'row) runtime \<Rightarrow> 'schema store \<Rightarrow> ('schema, 'obj) ResultSet \<Rightarrow> bool" where
  "queueFits c h s =
     (case partitions s of
        [] \<Rightarrow> True
      | first # rest \<Rightarrow>
          (case h first of
             None \<Rightarrow> False
           | Some p \<Rightarrow>
               rowsInBounds c (schema s) p (byteCounter s) (getNumRows p - curRowCounter s))
          \<and> list_all (partitionFits c (schema s) h) rest)"

text \<open>
  The partitions a producer hands to the constructor, as the pool and the row codec
  promise them: the queue names each partition once; each pointer addresses a partition
  of the cursor's schema that has not been invalidated and holds at least one row; and
  each of its rows lies within its buffer.
\<close>

definition wellFormedQueue ::
  "('schema, 'obj, 'row) runtime \<Rightarrow> 'schema \<Rightarrow> 'schema store \<Rightarrow> addr list \<Rightarrow> bool" where
  "wellFormedQueue c sch h ps =
     (distinct ps
      \<and> list_all (partitionOk sch h) ps
      \<and> list_all (partitionFits c sch h) ps
      \<and> list_all (\<lambda>a. case h a of None \<Rightarrow> False | Some p \<Rightarrow> invalidations p = 0) ps)"

text \<open>
  A call of \<^verbatim>\<open>getNextRow()\<close> emits the front tagged row when it returns the conversion
  of the front object and leaves the tagged-row queue without its front element.
\<close>

definition emitsTagged ::
  "('schema, 'obj, 'row) runtime \<Rightarrow> 'schema store \<Rightarrow> ('schema, 'obj) ResultSet \<Rightarrow> bool" where
  "emitsTagged c h s =
     (case pyobjects s of
        [] \<Rightarrow> False
      | (row_number, obj) # rest \<Rightarrow>
          (case getNextRow c h s of
             Inl e \<Rightarrow> False
           | Inr (row, h2, s2) \<Rightarrow> row = pythonToRow c obj \<and> pyobjects s2 = rest))"

text \<open>The front partition of the queue has rows that were not read.\<close>

definition frontUnread :: "'schema store \<Rightarrow> ('schema, 'obj) ResultSet \<Rightarrow> bool" where
  "frontUnread h s =
     (case partitions s of
        [] \<Rightarrow> False
      | first # rest \<Rightarrow>
          (case h first of None \<Rightarrow> False | Some p \<Rightarrow> curRowCounter s < getNumRows p))"

text \<open>
  Some partition of the queue has rows that were not read: the front partition beyond the
  row offset, or a later partition that is not empty.
\<close>

definition someUnread :: "'schema store \<Rightarrow> ('schema, 'obj) ResultSet \<Rightarrow> bool" where
  "someUnread h s =
     (case partitions s of
        [] \<Rightarrow> False
      | first # rest \<Rightarrow>
          frontUnread h s \<or>
          list_ex (\<lambda>a. case h a of None \<Rightarrow> False | Some p \<Rightarrow> 0 < getNumRows p) rest)"






subsection \<open>A sample runtime and store\<close>

text \<open>
  A row is a list of bytes, serialized as its length in one byte and then its bytes;
  a foreign object is the row it converts to. Partition \<open>partA\<close> stores the rows
  \<open>[10]\<close> and \<open>[11]\<close>, \<open>partB\<close> the row \<open>[20]\<close>; \<open>partZ\<close> stores no row, its
  buffer holds two bytes of an earlier use. The store has \<open>partA\<close> at address 1,
  \<open>partB\<close> at address 2 and \<open>partZ\<close> at address 3; every partition has the schema 7.
\<close>

definition sampleRuntime :: "(nat, byte list, byte list) runtime" where
  "sampleRuntime =
     \<lparr>fromMemory = (\<lambda>sch mem size. case take size mem of [] \<Rightarrow> [] | n # bs \<Rightarrow> take (unat n) bs),
      serializedLength = (\<lambda>row. Suc (length row)),
      pythonToRow = (\<lambda>obj. obj),
      emptyRow = []\<rparr>"

definition partA :: "nat Partition" where
  "partA = \<lparr>numRows = 2, pschema = 7, memory = [1, 10, 1, 11], invalidations = 0\<rparr>"

definition partB :: "nat Partition" where
  "partB = \<lparr>numRows = 1, pschema = 7, memory = [1, 20], invalidations = 0\<rparr>"

definition partZ :: "nat Partition" where
  "partZ = \<lparr>numRows = 0, pschema = 7, memory = [1, 99], invalidations = 0\<rparr>"

definition sampleStore :: "nat store" where
  "sampleStore = (\<lambda>a. if a = 1 then Some partA else if a = 2 then Some partB
                       else if a = 3 then Some partZ else None)"


section \<open>Properties\<close>

subsection \<open>Evaluation on numerals and on the sample store\<close>

lemma decodeRows_numeral:
  "decodeRows c sch p off (numeral k) =
     (let row = fromMemory c sch (drop off (memory p)) (capacity p - off)
      in row # decodeRows c sch p (off + serializedLength c row) (pred_numeral k))"
  by (simp add: numeral_eq_Suc)

lemma decodeRows_1:
  "decodeRows c sch p off 1 = [fromMemory c sch (drop off (memory p)) (capacity p - off)]"
  by (simp add: Let_def)

lemma rowsInBounds_numeral:
  "rowsInBounds c sch p off (numeral k) =
     (let row = fromMemory c sch (drop off (memory p)) (capacity p - off)
      in off + serializedLength c row \<le> capacity p
         \<and> rowsInBounds c sch p (off + serializedLength c row) (pred_numeral k))"
  by (simp add: numeral_eq_Suc)

lemma rowsInBounds_1:
  "rowsInBounds c sch p off 1 =
     (off + serializedLength c (fromMemory c sch (drop off (memory p)) (capacity p - off))
        \<le> capacity p)"
  by (simp add: Let_def)

lemmas sample_defs = sampleRuntime_def sampleStore_def partA_def partB_def partZ_def
  mkResultSet_def INT64_MAX_def

lemmas op_defs = getNextRow_def readPartitionRow_def emitPyObject_def removeFirstPartition_def
  hasNextRow_def getNumRows_def capacity_def invalidate_def Let_def

lemmas eval_defs = sample_defs op_defs partitionRows_def decodeRows_numeral decodeRows_1

subsection \<open>The partition queue under \<^verbatim>\<open>invalidate()\<close>\<close>

lemma partitionOk_upd:
  "h b = Some q \<Longrightarrow> partitionOk sch (h(b \<mapsto> invalidate q)) a = partitionOk sch h a"
  by (simp add: partitionOk_def invalidate_def getNumRows_def)

lemma decodeRows_invalidate:
  "decodeRows c sch (invalidate q) off n = decodeRows c sch q off n"
  by (induction n arbitrary: off) (simp_all add: invalidate_def capacity_def Let_def)

lemma partitionRows_upd:
  "h b = Some q \<Longrightarrow> partitionRows c sch (h(b \<mapsto> invalidate q)) a = partitionRows c sch h a"
  by (simp add: partitionRows_def decodeRows_invalidate getNumRows_def)
     (simp add: invalidate_def)

lemma list_all_partitionOk_upd:
  "h b = Some q \<Longrightarrow>
   list_all (partitionOk sch (h(b \<mapsto> invalidate q))) as = list_all (partitionOk sch h) as"
  by (induction as) (simp_all add: partitionOk_upd)

lemma map_partitionRows_upd:
  "h b = Some q \<Longrightarrow>
   map (partitionRows c sch (h(b \<mapsto> invalidate q))) as = map (partitionRows c sch h) as"
  by (induction as) (simp_all add: partitionRows_upd)

lemma rowsInBounds_invalidate:
  "rowsInBounds c sch (invalidate q) off n = rowsInBounds c sch q off n"
  by (induction n arbitrary: off) (simp_all add: invalidate_def capacity_def Let_def)

lemma partitionFits_upd:
  "h b = Some q \<Longrightarrow>
   partitionFits c sch (h(b \<mapsto> invalidate q)) a = partitionFits c sch h a"
  by (simp add: partitionFits_def rowsInBounds_invalidate getNumRows_def)
     (simp add: invalidate_def)

lemma list_all_partitionFits_upd:
  "h b = Some q \<Longrightarrow>
   list_all (partitionFits c sch (h(b \<mapsto> invalidate q))) as = list_all (partitionFits c sch h) as"
  by (induction as) (simp_all add: partitionFits_upd)

lemma queueFits_fresh:
  "list_all (partitionFits c (schema s) h) (partitions s) \<Longrightarrow> curRowCounter s = 0 \<Longrightarrow>
   byteCounter s = 0 \<Longrightarrow> queueFits c h s"
  by (cases "partitions s") (auto simp: queueFits_def partitionFits_def split: option.splits)

lemma queueOk_fresh:
  "list_all (partitionOk (schema s) h) (partitions s) \<Longrightarrow> curRowCounter s = 0 \<Longrightarrow> queueOk h s"
  by (cases "partitions s") (auto simp: queueOk_def partitionOk_def split: option.splits)

lemma unreadRows_fresh:
  "curRowCounter s = 0 \<Longrightarrow> byteCounter s = 0 \<Longrightarrow>
   unreadRows c h s = concat (map (partitionRows c (schema s) h) (partitions s))"
  by (cases "partitions s") (auto simp: unreadRows_def partitionRows_def split: option.splits)

subsection \<open>Reading the partition queue\<close>

text \<open>
  One read from the partition queue, on a queue that is in order and whose unread rows
  lie within their buffers.
\<close>

lemma readPartitionRow_step:
  assumes ok: "queueOk h s" and fit: "queueFits c h s" and ne: "partitions s \<noteq> []"
  shows "\<exists>h2 s2. readPartitionRow c h s = Inr (hd (unreadRows c h s), h2, s2)
           \<and> unreadRows c h s \<noteq> []
           \<and> unreadRows c h2 s2 = tl (unreadRows c h s)
           \<and> queueOk h2 s2
           \<and> queueFits c h2 s2
           \<and> pyobjects s2 = pyobjects s
           \<and> schema s2 = schema s
           \<and> totalRowCounter s2 = Suc (totalRowCounter s)
           \<and> rowsRetrieved s2 = Suc (rowsRetrieved s)"
proof -
  from ne obtain first rest where ps: "partitions s = first # rest"
    by (cases "partitions s") auto
  from ok ps obtain p where hp: "h first = Some p" and lt: "curRowCounter s < getNumRows p"
    by (auto simp: queueOk_def split: option.splits)
  from ok ps hp have sch: "pschema p = schema s" and okrest: "list_all (partitionOk (schema s) h) rest"
    by (auto simp: queueOk_def partitionOk_def)
  define row where "row = fromMemory c (schema s) (drop (byteCounter s) (memory p)) (capacity p - byteCounter s)"
  from lt obtain k where k: "getNumRows p - curRowCounter s = Suc k"
    by (cases "getNumRows p - curRowCounter s") auto
  have unread: "unreadRows c h s =
      row # decodeRows c (schema s) p (byteCounter s + serializedLength c row) k
        @ concat (map (partitionRows c (schema s) h) rest)"
    by (simp add: unreadRows_def ps hp k row_def Let_def)
  from fit ps hp k have inb: "byteCounter s + serializedLength c row \<le> capacity p"
    and fitk: "rowsInBounds c (schema s) p (byteCounter s + serializedLength c row) k"
    and fitrest: "list_all (partitionFits c (schema s) h) rest"
    by (simp_all add: queueFits_def row_def Let_def)
  from inb have cap: "\<not> capacity p < byteCounter s" by simp
  show ?thesis
  proof (cases "Suc (curRowCounter s) = getNumRows p")
    case True
    then have k0: "k = 0" using k by simp
    let ?h2 = "h(first \<mapsto> invalidate p)"
    let ?s2 = "s\<lparr>byteCounter := 0, curRowCounter := 0,
                  rowsRetrieved := rowsRetrieved s + 1,
                  totalRowCounter := totalRowCounter s + 1, partitions := rest\<rparr>"
    have rd: "readPartitionRow c h s = Inr (row, ?h2, ?s2)"
      using True cap
      by (simp add: readPartitionRow_def ps hp sch row_def Let_def removeFirstPartition_def)
    have okrest2: "list_all (partitionOk (schema s) ?h2) rest"
      using okrest hp by (simp add: list_all_partitionOk_upd)
    have q2: "queueOk ?h2 ?s2"
      using okrest2 by (intro queueOk_fresh) simp_all
    have "list_all (partitionFits c (schema s) ?h2) rest"
      using fitrest hp by (simp add: list_all_partitionFits_upd)
    then have f2: "queueFits c ?h2 ?s2"
      by (intro queueFits_fresh) simp_all
    have "unreadRows c ?h2 ?s2 = concat (map (partitionRows c (schema s) ?h2) rest)"
      by (simp add: unreadRows_fresh)
    then have u2: "unreadRows c ?h2 ?s2 = concat (map (partitionRows c (schema s) h) rest)"
      using hp by (simp add: map_partitionRows_upd)
    show ?thesis using rd unread u2 q2 f2 k0 by simp
  next
    case False
    let ?s1 = "s\<lparr>byteCounter := byteCounter s + serializedLength c row,
                  curRowCounter := curRowCounter s + 1,
                  rowsRetrieved := rowsRetrieved s + 1,
                  totalRowCounter := totalRowCounter s + 1\<rparr>"
    have rd: "readPartitionRow c h s = Inr (row, h, ?s1)"
      using False cap by (simp add: readPartitionRow_def ps hp sch row_def Let_def)
    have q1: "queueOk h ?s1"
      using ok False lt by (simp add: queueOk_def ps hp)
    have km: "getNumRows p - Suc (curRowCounter s) = k" using k by simp
    then have u1: "unreadRows c h ?s1 =
        decodeRows c (schema s) p (byteCounter s + serializedLength c row) k
          @ concat (map (partitionRows c (schema s) h) rest)"
      by (simp add: unreadRows_def ps hp)
    have f1: "queueFits c h ?s1"
      using fitk fitrest km by (simp add: queueFits_def ps hp)
    show ?thesis using rd unread u1 q1 f1 by simp
  qed
qed


lemma getNextRow_empty:
  "partitions s = [] \<Longrightarrow> pyobjects s = [] \<Longrightarrow> getNextRow c h s = Inr (emptyRow c, h, s)"
  by (simp add: getNextRow_def readPartitionRow_def)

lemma getNextRow_no_pyobjects:
  "pyobjects s = [] \<Longrightarrow> getNextRow c h s = readPartitionRow c h s"
  by (simp add: getNextRow_def)

lemma getNextRow_due:
  "pyobjects s = (i, obj) # rest \<Longrightarrow> partitions s = [] \<or> i \<le> totalRowCounter s \<Longrightarrow>
   getNextRow c h s = Inr (pythonToRow c obj, h,
      s\<lparr>pyobjects := rest, rowsRetrieved := rowsRetrieved s + 1,
        totalRowCounter := totalRowCounter s + (if rest = [] \<or> fst (hd rest) \<noteq> i then 1 else 0)\<rparr>)"
  by (auto simp: getNextRow_def emitPyObject_def Let_def)

lemma getNextRow_not_due:
  "pyobjects s = (i, obj) # rest \<Longrightarrow> partitions s \<noteq> [] \<Longrightarrow> \<not> i \<le> totalRowCounter s \<Longrightarrow>
   getNextRow c h s = readPartitionRow c h s"
  by (simp add: getNextRow_def)

lemma pullRows_empty:
  "partitions s = [] \<Longrightarrow> pyobjects s = [] \<Longrightarrow>
   pullRows c m h s = Inr (replicate m (emptyRow c), h, s)"
  by (induction m) (simp_all add: getNextRow_empty)

lemma pullRows_add:
  "pullRows c (m + n) h s =
     (case pullRows c m h s of
        Inl e \<Rightarrow> Inl e
      | Inr (rows1, h1, s1) \<Rightarrow>
          (case pullRows c n h1 s1 of
             Inl e \<Rightarrow> Inl e
           | Inr (rows2, h2, s2) \<Rightarrow> Inr (rows1 @ rows2, h2, s2)))"
proof (induction m arbitrary: h s)
  case 0
  show ?case by (simp split: sum.splits)
next
  case (Suc m)
  show ?case
  proof (cases "getNextRow c h s")
    case (Inl e)
    then show ?thesis by simp
  next
    case (Inr r)
    obtain row h1 s1 where r: "r = (row, h1, s1)" by (cases r)
    show ?thesis using Inr r Suc.IH [of h1 s1]
      by (simp split: sum.splits)
  qed
qed

lemma unreadRows_no_partitions: "partitions s = [] \<Longrightarrow> unreadRows c h s = []"
  by (simp add: unreadRows_def)

lemma pullRows_unread:
  assumes ok: "queueOk h s" and fit: "queueFits c h s" and py: "pyobjects s = []"
    and len: "length (unreadRows c h s) = n"
  shows "\<exists>h2 s2. pullRows c n h s = Inr (unreadRows c h s, h2, s2)
      \<and> partitions s2 = [] \<and> pyobjects s2 = []"
  using ok fit py len
proof (induction n arbitrary: h s)
  case 0
  have "partitions s = []"
  proof (rule ccontr)
    assume "partitions s \<noteq> []"
    from readPartitionRow_step [OF "0.prems"(1) "0.prems"(2) this]
    have "unreadRows c h s \<noteq> []" by blast
    with "0.prems"(4) show False by simp
  qed
  with 0 show ?case by simp
next
  case (Suc n)
  from Suc.prems(4) have ne: "partitions s \<noteq> []"
    by (auto simp: unreadRows_no_partitions)
  from readPartitionRow_step [OF Suc.prems(1) Suc.prems(2) ne]
  obtain h1 s1 where rd: "readPartitionRow c h s = Inr (hd (unreadRows c h s), h1, s1)"
    and u: "unreadRows c h s \<noteq> []" "unreadRows c h1 s1 = tl (unreadRows c h s)"
    and ok1: "queueOk h1 s1" and fit1: "queueFits c h1 s1"
    and py1: "pyobjects s1 = pyobjects s"
    by blast
  have len: "length (unreadRows c h1 s1) = n" using u Suc.prems(4) by simp
  from Suc.IH [OF ok1 fit1 _ len] py1 Suc.prems(3)
  obtain h2 s2 where "pullRows c n h1 s1 = Inr (unreadRows c h1 s1, h2, s2)"
     "partitions s2 = []" "pyobjects s2 = []" by auto
  then show ?case using rd u Suc.prems(3)
    by (simp add: getNextRow_no_pyobjects)
qed

lemma queueOk_frame:
  "queueOk h (s\<lparr>pyobjects := objs, rowsRetrieved := r, totalRowCounter := t\<rparr>) = queueOk h s"
  by (simp add: queueOk_def split: list.splits option.splits)

lemma unreadRows_frame:
  "unreadRows c h (s\<lparr>pyobjects := objs, rowsRetrieved := r, totalRowCounter := t\<rparr>)
     = unreadRows c h s"
  by (simp add: unreadRows_def split: list.splits option.splits)

lemma queueFits_frame:
  "queueFits c h (s\<lparr>pyobjects := objs, rowsRetrieved := r, totalRowCounter := t\<rparr>)
     = queueFits c h s"
  by (simp add: queueFits_def split: list.splits option.splits)

lemma mkResultSet_queueOk:
  "list_all (partitionOk sch h) ps \<Longrightarrow> queueOk h (mkResultSet sch ps excs objs maxR)"
  by (rule queueOk_fresh) (simp_all add: mkResultSet_def)

lemma mkResultSet_queueFits:
  "list_all (partitionFits c sch h) ps \<Longrightarrow> queueFits c h (mkResultSet sch ps excs objs maxR)"
  by (rule queueFits_fresh) (simp_all add: mkResultSet_def)

lemma wellFormedQueue_ready:
  "wellFormedQueue c sch h ps \<Longrightarrow>
   queueOk h (mkResultSet sch ps excs objs maxR) \<and> queueFits c h (mkResultSet sch ps excs objs maxR)"
  by (simp add: wellFormedQueue_def mkResultSet_queueOk mkResultSet_queueFits)

lemma mkResultSet_unreadRows:
  "unreadRows c h (mkResultSet sch ps excs objs maxR) = concat (map (partitionRows c sch h) ps)"
  by (simp add: unreadRows_fresh mkResultSet_def)


subsection \<open>The merge step\<close>

lemma removeFirstPartition_pyobjects:
  "removeFirstPartition h s = Inr (h2, s2) \<Longrightarrow> pyobjects s2 = pyobjects s"
  by (auto simp: removeFirstPartition_def split: list.splits option.splits)

lemma readPartitionRow_pyobjects:
  "readPartitionRow c h s = Inr (row, h2, s2) \<Longrightarrow> pyobjects s2 = pyobjects s"
  unfolding readPartitionRow_def Let_def
  by (auto split: list.splits option.splits if_splits sum.splits dest!: removeFirstPartition_pyobjects)

lemma emitsTagged_iff:
  assumes py: "pyobjects s = (i, obj) # rest"
  shows "emitsTagged c h s \<longleftrightarrow> (partitions s = [] \<or> i \<le> totalRowCounter s)"
proof (cases "partitions s = [] \<or> i \<le> totalRowCounter s")
  case True
  then show ?thesis using py getNextRow_due [OF py True, of c h]
    by (simp add: emitsTagged_def)
next
  case False
  then have eq: "getNextRow c h s = readPartitionRow c h s"
    using getNextRow_not_due [OF py] by simp
  have "\<not> emitsTagged c h s"
  proof (cases "readPartitionRow c h s")
    case (Inl e)
    then show ?thesis using py eq by (simp add: emitsTagged_def)
  next
    case (Inr r)
    obtain row h2 s2 where r: "r = (row, h2, s2)" by (cases r)
    have "pyobjects s2 = (i, obj) # rest"
      using readPartitionRow_pyobjects [of c h s row h2 s2] Inr r py by simp
    then show ?thesis using py eq Inr r by (simp add: emitsTagged_def)
  qed
  then show ?thesis using False by simp
qed

lemma splice_at_index_1:
  assumes wf: "wellFormedQueue c sch h ps"
    and rows: "concat (map (partitionRows c sch h) ps) = p0 # others"
  shows "\<exists>h2 s2. pullRows c (Suc (Suc (length others))) h (mkResultSet sch ps excs [(1, obj)] maxR)
                  = Inr (p0 # pythonToRow c obj # others, h2, s2)"
proof -
  let ?s = "mkResultSet sch ps excs [(1, obj)] maxR"
  from wellFormedQueue_ready [OF wf] have q: "queueOk h ?s" and f: "queueFits c h ?s"
    by simp_all
  have u: "unreadRows c h ?s = p0 # others" using rows by (simp add: mkResultSet_unreadRows)
  have py: "pyobjects ?s = [(1, obj)]" and tot: "totalRowCounter ?s = 0"
    by (simp_all add: mkResultSet_def)
  have ne: "partitions ?s \<noteq> []" using u by (auto simp: unreadRows_no_partitions)
  from readPartitionRow_step [OF q f ne] u py tot
  obtain h1 s1 where rd: "readPartitionRow c h ?s = Inr (p0, h1, s1)"
    and u1: "unreadRows c h1 s1 = others" and q1: "queueOk h1 s1" and f1: "queueFits c h1 s1"
    and py1: "pyobjects s1 = [(1, obj)]" and tot1: "totalRowCounter s1 = 1"
    by auto
  have g0: "getNextRow c h ?s = Inr (p0, h1, s1)"
    using getNextRow_not_due [OF py ne, of c h] tot rd by simp
  let ?s2 = "s1\<lparr>pyobjects := [], rowsRetrieved := rowsRetrieved s1 + 1,
                 totalRowCounter := totalRowCounter s1 + 1\<rparr>"
  have g1: "getNextRow c h1 s1 = Inr (pythonToRow c obj, h1, ?s2)"
    using getNextRow_due [OF py1, of c h1] tot1 by simp
  have q2: "queueOk h1 ?s2" using q1 by (simp add: queueOk_frame)
  have f2: "queueFits c h1 ?s2" using f1 by (simp add: queueFits_frame)
  have u2: "unreadRows c h1 ?s2 = others" using u1 by (simp add: unreadRows_frame)
  from pullRows_unread [OF q2 f2 _ refl] u2
  obtain h3 s3 where "pullRows c (length others) h1 ?s2 = Inr (others, h3, s3)" by auto
  then show ?thesis using g0 g1 by simp
qed

text \<open>
  Claim C1, amended. In every state with a tagged row queued, \<^verbatim>\<open>getNextRow()\<close> emits the
  front tagged row if and only if the partition queue is empty or the row's logical index
  is at most \<open>totalRowCounter\<close>. Consequently, for a cursor over a well-formed queue of
  partitions (pairwise distinct valid pointers to partitions of the cursor's schema that
  are not invalidated, each holding at least one row and each storing its rows within its
  buffer: every row starts and ends at an offset no greater than the capacity), with
  concatenated rows \<open>p0, others\<close>, and a single tagged row of index 1, the calls of
  \<^verbatim>\<open>getNextRow()\<close> return \<open>p0\<close>, the tagged row, and then \<open>others\<close>.
\<close>

theorem tagged_row_merge:
  "(pyobjects s \<noteq> [] \<longrightarrow>
      (emitsTagged c h s \<longleftrightarrow> (partitions s = [] \<or> fst (hd (pyobjects s)) \<le> totalRowCounter s)))
   \<and> (wellFormedQueue c sch h ps \<and> concat (map (partitionRows c sch h) ps) = p0 # others \<longrightarrow>
        (\<exists>h2 s2. pullRows c (Suc (Suc (length others))) h (mkResultSet sch ps excs [(1, obj)] maxR)
                  = Inr (p0 # pythonToRow c obj # others, h2, s2)))"
proof (intro conjI impI)
  assume ne: "pyobjects s \<noteq> []"
  then obtain i ob rest where py: "pyobjects s = (i, ob) # rest"
    by (cases "pyobjects s") auto
  show "emitsTagged c h s \<longleftrightarrow> (partitions s = [] \<or> fst (hd (pyobjects s)) \<le> totalRowCounter s)"
    using emitsTagged_iff [OF py, of c h] py by simp
next
  assume "wellFormedQueue c sch h ps \<and> concat (map (partitionRows c sch h) ps) = p0 # others"
  then show "\<exists>h2 s2. pullRows c (Suc (Suc (length others))) h (mkResultSet sch ps excs [(1, obj)] maxR)
                  = Inr (p0 # pythonToRow c obj # others, h2, s2)"
    using splice_at_index_1 [of c sch h ps p0 others excs obj maxR] by simp
qed

theorem tagged_row_merge_witness:
  "pyobjects (mkResultSet (7::nat) [1] [] [(0, [5::byte])] (-1)) \<noteq> []
   \<and> emitsTagged sampleRuntime sampleStore (mkResultSet 7 [1] [] [(0, [5])] (-1))
   \<and> wellFormedQueue sampleRuntime 7 sampleStore [2, 1]
   \<and> concat (map (partitionRows sampleRuntime 7 sampleStore) [2, 1]) = [[20], [10], [11]]
   \<and> (\<exists>h2 s2. pullRows sampleRuntime (Suc (Suc (Suc (Suc 0)))) sampleStore
                   (mkResultSet 7 [2, 1] [] [(1, [5])] (-1))
                  = Inr ([[20], [5], [10], [11]], h2, s2))"
proof -
  have a: "pyobjects (mkResultSet (7::nat) [1] [] [(0, [5::byte])] (-1)) \<noteq> []"
    by (simp add: mkResultSet_def)
  have b: "wellFormedQueue sampleRuntime 7 sampleStore [2, 1]"
    by (simp add: wellFormedQueue_def partitionOk_def partitionFits_def rowsInBounds_numeral
          rowsInBounds_1 sample_defs getNumRows_def capacity_def Let_def)
  have r: "concat (map (partitionRows sampleRuntime 7 sampleStore) [2, 1]) = [[20], [10], [11]]"
    by (simp add: eval_defs)
  from tagged_row_merge [where s = "mkResultSet 7 [1] [] [(0, [5])] (-1)" and c = sampleRuntime
      and h = sampleStore and sch = 7 and ps = "[2, 1]" and ?p0.0 = "[20]"
      and others = "[[10], [11]]" and excs = "[]" and obj = "[5]" and maxR = "-1"] a b r
  show ?thesis by (simp add: mkResultSet_def sampleRuntime_def)
qed

text \<open>
  The claim as written fails when a partition of the queue holds no row. The queue
  \<open>[2, 3, 1]\<close> stores the rows \<open>[20], [10], [11]\<close>; with the tagged row \<open>[5]\<close> of index 1
  the claim gives \<open>[20], [5], [10], [11]\<close>. Three calls return \<open>[20], [5]\<close> and then a
  row decoded from the buffer of the empty partition 3, which is never retired; the loop
  over \<^verbatim>\<open>hasNextRow()\<close> ends after \<open>[20], [5]\<close>.
\<close>

theorem tagged_row_splice_counterexample:
  "concat (map (partitionRows sampleRuntime 7 sampleStore) [2, 3, 1]) = [[20], [10], [11]]
   \<and> map_sum id fst (pullRows sampleRuntime (Suc (Suc (Suc 0))) sampleStore
        (mkResultSet 7 [2, 3, 1] [] [(1, [5])] (-1))) = Inr [[20], [5], [99]]
   \<and> map_sum id fst (guardedPulls sampleRuntime (Suc (Suc (Suc (Suc 0)))) sampleStore
        (mkResultSet 7 [2, 3, 1] [] [(1, [5])] (-1))) = Inr [[20], [5]]"
  by (simp add: eval_defs)

text \<open>
  Claim C9. When \<^verbatim>\<open>getNextRow()\<close> emits a tagged row, the call leaves the partition
  queue, the row offset and the byte offset as they were (and the store of partitions too):
  the new state differs from the old one in the tagged-row queue, in \<open>rowsRetrieved\<close> and,
  by at most one, in \<open>totalRowCounter\<close> only.
\<close>

theorem tagged_emission_frame:
  "emitsTagged c h s \<Longrightarrow>
   \<exists>row s2. getNextRow c h s = Inr (row, h, s2)
     \<and> partitions s2 = partitions s
     \<and> curRowCounter s2 = curRowCounter s
     \<and> byteCounter s2 = byteCounter s
     \<and> s2 = s\<lparr>pyobjects := tl (pyobjects s),
              rowsRetrieved := rowsRetrieved s + 1,
              totalRowCounter := totalRowCounter s2\<rparr>
     \<and> (totalRowCounter s2 = totalRowCounter s \<or> totalRowCounter s2 = totalRowCounter s + 1)"
proof -
  assume e: "emitsTagged c h s"
  then obtain i obj rest where py: "pyobjects s = (i, obj) # rest"
    by (cases "pyobjects s") (auto simp: emitsTagged_def)
  from e have due: "partitions s = [] \<or> i \<le> totalRowCounter s"
    using emitsTagged_iff [OF py, of c h] by simp
  show ?thesis
    using getNextRow_due [OF py due, of c h] py by simp
qed

theorem tagged_emission_frame_witness:
  "emitsTagged sampleRuntime sampleStore (mkResultSet 7 [1] [] [(0, [5]), (3, [6])] 10)
   \<and> getNextRow sampleRuntime sampleStore (mkResultSet 7 [1] [] [(0, [5]), (3, [6])] 10)
       = Inr ([5], sampleStore,
              (mkResultSet 7 [1] [] [(0, [5]), (3, [6])] 10)
                \<lparr>pyobjects := [(3, [6])], rowsRetrieved := 1, totalRowCounter := 1\<rparr>)"
proof -
  have e: "emitsTagged sampleRuntime sampleStore (mkResultSet 7 [1] [] [(0, [5]), (3, [6])] 10)"
    by (simp add: emitsTagged_def eval_defs)
  from tagged_emission_frame [OF e] obtain row s2 where
    g: "getNextRow sampleRuntime sampleStore (mkResultSet 7 [1] [] [(0, [5]), (3, [6])] 10)
          = Inr (row, sampleStore, s2)"
    by blast
  have "getNextRow sampleRuntime sampleStore (mkResultSet 7 [1] [] [(0, [5]), (3, [6])] 10)
       = Inr ([5], sampleStore,
              (mkResultSet 7 [1] [] [(0, [5]), (3, [6])] 10)
                \<lparr>pyobjects := [(3, [6])], rowsRetrieved := 1, totalRowCounter := 1\<rparr>)"
    by (simp add: eval_defs)
  with e show ?thesis by simp
qed

text \<open>
  Claim C10. When the partition queue and the tagged-row queue are both empty,
  \<^verbatim>\<open>getNextRow()\<close> returns the default row and the state (every counter, and the store
  of partitions) is the one before the call.
\<close>

theorem getNextRow_on_empty_queues:
  "partitions s = [] \<Longrightarrow> pyobjects s = [] \<Longrightarrow> getNextRow c h s = Inr (emptyRow c, h, s)"
  by (simp add: getNextRow_def readPartitionRow_def)

theorem getNextRow_on_empty_queues_witness:
  "partitions (mkResultSet (7::nat) [] [3] ([]::(nat \<times> byte list) list) 10) = []
   \<and> pyobjects (mkResultSet (7::nat) [] [3] ([]::(nat \<times> byte list) list) 10) = []
   \<and> getNextRow sampleRuntime sampleStore (mkResultSet 7 [] [3] [] 10)
       = Inr ([], sampleStore, mkResultSet 7 [] [3] [] 10)"
proof -
  have a: "partitions (mkResultSet (7::nat) [] [3] ([]::(nat \<times> byte list) list) 10) = []"
    and b: "pyobjects (mkResultSet (7::nat) [] [3] ([]::(nat \<times> byte list) list) 10) = []"
    by (simp_all add: mkResultSet_def)
  from getNextRow_on_empty_queues [OF a b, of sampleRuntime sampleStore] a b
  show ?thesis by (simp add: sampleRuntime_def)
qed

subsection \<open>Draining the partition queue\<close>

lemma readPartitionRow_frame:
  "readPartitionRow c h s = Inr (row, h2, s2) \<Longrightarrow>
   maxRows s2 = maxRows s \<and> exceptions s2 = exceptions s \<and> schema s2 = schema s"
  unfolding readPartitionRow_def removeFirstPartition_def Let_def
  by (auto split: list.splits option.splits if_splits)

lemma hasNextRow_queueOk:
  "queueOk h s \<Longrightarrow> partitions s \<noteq> [] \<Longrightarrow> rowsRetrieved s < maxRows s \<Longrightarrow>
   hasNextRow h s = Inr True"
  by (cases "partitions s") (auto simp: hasNextRow_def queueOk_def split: option.splits)

lemma hasNextRow_empty:
  "partitions s = [] \<Longrightarrow> pyobjects s = [] \<Longrightarrow> hasNextRow h s = Inr False"
  by (simp add: hasNextRow_def)

lemma guardedPulls_stop:
  "hasNextRow h s = Inr False \<Longrightarrow> guardedPulls c fuel h s = Inr ([], h, s)"
  by (cases fuel) simp_all

lemma guardedPulls_unread:
  assumes ok: "queueOk h s" and fit: "queueFits c h s" and py: "pyobjects s = []"
    and len: "length (unreadRows c h s) = n"
    and bud: "rowsRetrieved s + n \<le> maxRows s" and fu: "n \<le> fuel"
  shows "\<exists>h2 s2. guardedPulls c fuel h s = Inr (unreadRows c h s, h2, s2)
      \<and> hasNextRow h2 s2 = Inr False"
  using ok fit py len bud fu
proof (induction n arbitrary: h s fuel)
  case 0
  have "partitions s = []"
  proof (rule ccontr)
    assume "partitions s \<noteq> []"
    from readPartitionRow_step [OF "0.prems"(1) "0.prems"(2) this]
    have "unreadRows c h s \<noteq> []" by blast
    with "0.prems"(4) show False by simp
  qed
  then have "hasNextRow h s = Inr False" using "0.prems"(3) by (rule hasNextRow_empty)
  then show ?case using "0.prems"(4) by (simp add: guardedPulls_stop)
next
  case (Suc n)
  from Suc.prems(6) obtain k where fuel: "fuel = Suc k" and nk: "n \<le> k"
    by (cases fuel) auto
  from Suc.prems(4) have ne: "partitions s \<noteq> []"
    by (auto simp: unreadRows_no_partitions)
  have hn: "hasNextRow h s = Inr True"
    using Suc.prems(1) ne Suc.prems(5) by (intro hasNextRow_queueOk) simp_all
  from readPartitionRow_step [OF Suc.prems(1) Suc.prems(2) ne]
  obtain h1 s1 where rd: "readPartitionRow c h s = Inr (hd (unreadRows c h s), h1, s1)"
    and u: "unreadRows c h s \<noteq> []" "unreadRows c h1 s1 = tl (unreadRows c h s)"
    and ok1: "queueOk h1 s1" and fit1: "queueFits c h1 s1"
    and py1: "pyobjects s1 = pyobjects s"
    and rr: "rowsRetrieved s1 = Suc (rowsRetrieved s)"
    by blast
  have mx: "maxRows s1 = maxRows s" using readPartitionRow_frame [OF rd] by simp
  have len: "length (unreadRows c h1 s1) = n" using u Suc.prems(4) by simp
  have bud: "rowsRetrieved s1 + n \<le> maxRows s1" using rr mx Suc.prems(5) by simp
  from Suc.IH [OF ok1 fit1 _ len bud nk] py1 Suc.prems(3)
  obtain h2 s2 where "guardedPulls c k h1 s1 = Inr (unreadRows c h1 s1, h2, s2)"
     "hasNextRow h2 s2 = Inr False" by auto
  then show ?case using rd u Suc.prems(3) hn fuel
    by (simp add: getNextRow_no_pyobjects)
qed

text \<open>
  Claim C6, amended. For a cursor constructed with an empty tagged-row queue over a
  well-formed queue of partitions (pairwise distinct valid pointers to partitions of the
  cursor's schema that are not invalidated, each holding at least one row and each
  storing its rows within its buffer: every row starts and ends at an offset no greater
  than the capacity), the
  rows returned by repeated calls of \<^verbatim>\<open>getNextRow()\<close> are the concatenation of the
  partitions' decoded rows, in the order of the queue and in stored order within a
  partition; every later call returns the default row. The loop over
  \<^verbatim>\<open>hasNextRow()\<close> returns the same rows and ends with \<^verbatim>\<open>hasNextRow()\<close> false when
  the budget is not below their number (the unbounded budget is \<open>INT64_MAX\<close>).
\<close>

theorem partitions_only_order:
  fixes c :: "('schema, 'obj, 'row) runtime"
  assumes "wellFormedQueue c sch h ps"
  shows "(\<exists>h2 s2. pullRows c (length (concat (map (partitionRows c sch h) ps)) + m) h
                    (mkResultSet sch ps excs [] maxR)
                  = Inr (concat (map (partitionRows c sch h) ps) @ replicate m (emptyRow c), h2, s2))
       \<and> (length (concat (map (partitionRows c sch h) ps))
              \<le> maxRows (mkResultSet sch ps excs ([]::(nat \<times> 'obj) list) maxR)
            \<and> length (concat (map (partitionRows c sch h) ps)) \<le> fuel \<longrightarrow>
          (\<exists>h2 s2. guardedPulls c fuel h (mkResultSet sch ps excs [] maxR)
                  = Inr (concat (map (partitionRows c sch h) ps), h2, s2)
               \<and> hasNextRow h2 s2 = Inr False))"
proof (intro conjI impI)
  let ?s = "mkResultSet sch ps excs ([]::(nat \<times> 'obj) list) maxR"
  let ?rows = "concat (map (partitionRows c sch h) ps)"
  from wellFormedQueue_ready [OF assms] have ok: "queueOk h ?s" and fit: "queueFits c h ?s"
    by simp_all
  have py: "pyobjects ?s = []" by (simp add: mkResultSet_def)
  have u: "unreadRows c h ?s = ?rows" by (rule mkResultSet_unreadRows)
  from pullRows_unread [OF ok fit py, of "length ?rows"] u
  obtain h2 s2 where p: "pullRows c (length ?rows) h ?s = Inr (?rows, h2, s2)"
    and e: "partitions s2 = []" "pyobjects s2 = []" by auto
  show "\<exists>h2 s2. pullRows c (length ?rows + m) h ?s = Inr (?rows @ replicate m (emptyRow c), h2, s2)"
    using p pullRows_empty [OF e, of c m]
    by (simp add: pullRows_add)
  assume b: "length ?rows \<le> maxRows ?s \<and> length ?rows \<le> fuel"
  have r0: "rowsRetrieved ?s = 0" by (simp add: mkResultSet_def)
  have len: "length (unreadRows c h ?s) = length ?rows" using u by simp
  have bud: "rowsRetrieved ?s + length ?rows \<le> maxRows ?s" using b r0 by simp
  from guardedPulls_unread [OF ok fit py len bud, of fuel] b u
  show "\<exists>h2 s2. guardedPulls c fuel h ?s = Inr (?rows, h2, s2) \<and> hasNextRow h2 s2 = Inr False"
    by simp
qed

theorem partitions_only_order_witness:
  "wellFormedQueue sampleRuntime 7 sampleStore [1, 2]
   \<and> concat (map (partitionRows sampleRuntime 7 sampleStore) [1, 2]) = [[10], [11], [20]]
   \<and> (\<exists>h2 s2. pullRows sampleRuntime (Suc (Suc (Suc (Suc 0)))) sampleStore (mkResultSet 7 [1, 2] [] [] (-1))
                 = Inr ([[10], [11], [20], []], h2, s2))
   \<and> (\<exists>h2 s2. guardedPulls sampleRuntime 8 sampleStore (mkResultSet 7 [1, 2] [] [] (-1))
                 = Inr ([[10], [11], [20]], h2, s2) \<and> hasNextRow h2 s2 = Inr False)"
proof -
  have b: "wellFormedQueue sampleRuntime 7 sampleStore [1, 2]"
    by (simp add: wellFormedQueue_def partitionOk_def partitionFits_def rowsInBounds_numeral
          rowsInBounds_1 sample_defs getNumRows_def capacity_def Let_def)
  have r: "concat (map (partitionRows sampleRuntime 7 sampleStore) [1, 2]) = [[10], [11], [20]]"
    by (simp add: eval_defs)
  have e: "emptyRow sampleRuntime = []" by (simp add: sampleRuntime_def)
  have m: "maxRows (mkResultSet (7::nat) [1, 2] [] ([]::(nat \<times> byte list) list) (-1)) = INT64_MAX"
    by (simp add: mkResultSet_def)
  note t = partitions_only_order [OF b, of "Suc 0" "[]" "-1" 8, unfolded r e m]
  have p1: "\<exists>h2 s2. pullRows sampleRuntime (Suc (Suc (Suc (Suc 0)))) sampleStore (mkResultSet 7 [1, 2] [] [] (-1))
                 = Inr ([[10], [11], [20], []], h2, s2)"
    using t [THEN conjunct1] by simp
  have p2: "\<exists>h2 s2. guardedPulls sampleRuntime 8 sampleStore (mkResultSet 7 [1, 2] [] [] (-1))
                 = Inr ([[10], [11], [20]], h2, s2) \<and> hasNextRow h2 s2 = Inr False"
    using t [THEN conjunct2] by (simp add: INT64_MAX_def)
  show ?thesis using b r p1 p2 by blast
qed


text \<open>
  The claim as written ("any list of partitions") fails for a queue with an empty
  partition in front: the queue \<open>[3, 2]\<close> stores the one row \<open>[20]\<close>, the first call of
  \<^verbatim>\<open>getNextRow()\<close> returns a row decoded from the buffer of the empty partition 3, and
  \<^verbatim>\<open>hasNextRow()\<close> is false from the start.
\<close>

theorem partitions_only_order_counterexample:
  "concat (map (partitionRows sampleRuntime 7 sampleStore) [3, 2]) = [[20]]
   \<and> map_sum id fst (pullRows sampleRuntime 1 sampleStore (mkResultSet 7 [3, 2] [] [] (-1))) = Inr [[99]]
   \<and> map_sum id fst (guardedPulls sampleRuntime 1 sampleStore (mkResultSet 7 [3, 2] [] [] (-1))) = Inr []"
  by (simp add: eval_defs)

subsection \<open>What \<^verbatim>\<open>hasNextRow()\<close> reports\<close>

lemma frontUnread_someUnread:
  "queueOk h s \<Longrightarrow> someUnread h s = frontUnread h s"
  by (cases "partitions s")
     (auto simp: queueOk_def someUnread_def frontUnread_def split: option.splits)

text \<open>
  Claim C4, amended. \<^verbatim>\<open>hasNextRow()\<close> returns true if and only if the row budget is
  not exhausted (\<open>rowsRetrieved < maxRows\<close>) and the tagged-row queue is non-empty or the
  front partition of the partition queue has unread rows (the row offset is below its row
  count); partitions behind the front are not looked at. The one call that returns no
  value is the failed assertion on a null front pointer. On a queue in order (every
  partition holds at least one row, the row offset lies inside the front partition) this
  is the same as: some partition of the queue has unread rows.
\<close>

theorem hasNextRow_characterisation:
  "hasNextRow h s =
     (if rowsRetrieved s < maxRows s \<and> pyobjects s = [] \<and> partitions s \<noteq> []
         \<and> h (hd (partitions s)) = None
      then Inl AssertionFailed
      else Inr (rowsRetrieved s < maxRows s \<and> (pyobjects s \<noteq> [] \<or> frontUnread h s)))
   \<and> (queueOk h s \<longrightarrow>
        hasNextRow h s = Inr (rowsRetrieved s < maxRows s \<and> (pyobjects s \<noteq> [] \<or> someUnread h s)))"
proof (intro conjI impI)
  show a: "hasNextRow h s =
     (if rowsRetrieved s < maxRows s \<and> pyobjects s = [] \<and> partitions s \<noteq> []
         \<and> h (hd (partitions s)) = None
      then Inl AssertionFailed
      else Inr (rowsRetrieved s < maxRows s \<and> (pyobjects s \<noteq> [] \<or> frontUnread h s)))"
    by (cases "partitions s")
       (auto simp: hasNextRow_def frontUnread_def split: option.splits)
  assume q: "queueOk h s"
  then have "partitions s \<noteq> [] \<Longrightarrow> h (hd (partitions s)) \<noteq> None"
    by (cases "partitions s") (auto simp: queueOk_def split: option.splits)
  then show "hasNextRow h s = Inr (rowsRetrieved s < maxRows s \<and> (pyobjects s \<noteq> [] \<or> someUnread h s))"
    using a frontUnread_someUnread [OF q] by auto
qed

theorem hasNextRow_characterisation_witness:
  "queueOk sampleStore (mkResultSet 7 [1, 2] [] ([]::(nat \<times> byte list) list) (-1))
   \<and> hasNextRow sampleStore (mkResultSet 7 [1, 2] [] ([]::(nat \<times> byte list) list) (-1)) = Inr True
   \<and> someUnread sampleStore (mkResultSet 7 [1, 2] [] ([]::(nat \<times> byte list) list) (-1))"
proof -
  let ?s = "mkResultSet (7::nat) [1, 2] [] ([]::(nat \<times> byte list) list) (-1)"
  have q: "queueOk sampleStore ?s"
    by (simp add: queueOk_def partitionOk_def sample_defs getNumRows_def)
  have u: "someUnread sampleStore ?s"
    by (simp add: someUnread_def frontUnread_def sample_defs getNumRows_def)
  have b: "rowsRetrieved ?s < maxRows ?s" by (simp add: mkResultSet_def INT64_MAX_def)
  from hasNextRow_characterisation [of sampleStore ?s, THEN conjunct2] q u b
  show ?thesis by simp
qed

text \<open>
  The claim as written fails on the fresh cursor over the queue \<open>[3, 2]\<close>: the budget is
  not exhausted and partition 2 has an unread row, and \<^verbatim>\<open>hasNextRow()\<close> is false,
  since the front partition 3 is empty.
\<close>

theorem hasNextRow_later_partition_counterexample:
  "hasNextRow sampleStore (mkResultSet 7 [3, 2] [] ([]::(nat \<times> byte list) list) (-1)) = Inr False
   \<and> rowsRetrieved (mkResultSet (7::nat) [3, 2] [] ([]::(nat \<times> byte list) list) (-1))
       < maxRows (mkResultSet (7::nat) [3, 2] [] ([]::(nat \<times> byte list) list) (-1))
   \<and> someUnread sampleStore (mkResultSet 7 [3, 2] [] ([]::(nat \<times> byte list) list) (-1))"
  by (simp add: someUnread_def frontUnread_def hasNextRow_def sample_defs getNumRows_def)

subsection \<open>Tagged rows that share a logical index\<close>

text \<open>
  Claim C5, amended. In every state whose tagged-row queue starts with two rows of the
  same logical index, and whose front tagged row is due (the partition queue is empty or
  the index is at most \<open>totalRowCounter\<close>), two consecutive calls of \<^verbatim>\<open>getNextRow()\<close>
  emit both rows back to back; across the pair \<open>totalRowCounter\<close> advances by exactly 1
  when the row queued behind the pair, if any, has another index, and by 0 when it shares
  the index. In general a tagged-row emission increments \<open>totalRowCounter\<close> exactly when
  the next queued tagged row, if any, carries a different logical index.
\<close>

theorem duplicate_index_pair:
  "(pyobjects s = (i, a) # (i, b) # rest \<and> (partitions s = [] \<or> i \<le> totalRowCounter s) \<longrightarrow>
      pullRows c (Suc (Suc 0)) h s =
        Inr ([pythonToRow c a, pythonToRow c b], h,
             s\<lparr>pyobjects := rest,
               rowsRetrieved := rowsRetrieved s + 2,
               totalRowCounter :=
                 totalRowCounter s + (if rest = [] \<or> fst (hd rest) \<noteq> i then 1 else 0)\<rparr>))
   \<and> (emitsTagged c h s \<longrightarrow>
        (\<exists>row s2. getNextRow c h s = Inr (row, h, s2) \<and>
           totalRowCounter s2 =
             (if tl (pyobjects s) = [] \<or> fst (hd (tl (pyobjects s))) \<noteq> fst (hd (pyobjects s))
              then totalRowCounter s + 1 else totalRowCounter s)))"
proof (intro conjI impI)
  assume p: "pyobjects s = (i, a) # (i, b) # rest \<and> (partitions s = [] \<or> i \<le> totalRowCounter s)"
  then have py: "pyobjects s = (i, a) # (i, b) # rest"
    and due: "partitions s = [] \<or> i \<le> totalRowCounter s" by simp_all
  let ?s1 = "s\<lparr>pyobjects := (i, b) # rest, rowsRetrieved := rowsRetrieved s + 1,
                totalRowCounter := totalRowCounter s\<rparr>"
  have g1: "getNextRow c h s = Inr (pythonToRow c a, h, ?s1)"
    using getNextRow_due [OF py due, of c h] by simp
  have py1: "pyobjects ?s1 = (i, b) # rest" by simp
  have due1: "partitions ?s1 = [] \<or> i \<le> totalRowCounter ?s1" using due by simp
  show "pullRows c (Suc (Suc 0)) h s =
        Inr ([pythonToRow c a, pythonToRow c b], h,
             s\<lparr>pyobjects := rest,
               rowsRetrieved := rowsRetrieved s + 2,
               totalRowCounter :=
                 totalRowCounter s + (if rest = [] \<or> fst (hd rest) \<noteq> i then 1 else 0)\<rparr>)"
    using g1 getNextRow_due [OF py1 due1, of c h] by simp
next
  assume e: "emitsTagged c h s"
  then obtain i obj rest where py: "pyobjects s = (i, obj) # rest"
    by (cases "pyobjects s") (auto simp: emitsTagged_def)
  from e have due: "partitions s = [] \<or> i \<le> totalRowCounter s"
    using emitsTagged_iff [OF py, of c h] by simp
  show "\<exists>row s2. getNextRow c h s = Inr (row, h, s2) \<and>
           totalRowCounter s2 =
             (if tl (pyobjects s) = [] \<or> fst (hd (tl (pyobjects s))) \<noteq> fst (hd (pyobjects s))
              then totalRowCounter s + 1 else totalRowCounter s)"
    using getNextRow_due [OF py due, of c h] py by simp
qed

theorem duplicate_index_pair_witness:
  "pyobjects (mkResultSet (7::nat) [1] [] [(0, [50::byte]), (0, [51]), (4, [52])] (-1))
      = (0, [50]) # (0, [51]) # [(4, [52])]
   \<and> 0 \<le> totalRowCounter (mkResultSet (7::nat) [1] [] [(0, [50::byte]), (0, [51]), (4, [52])] (-1))
   \<and> pullRows sampleRuntime (Suc (Suc 0)) sampleStore
        (mkResultSet 7 [1] [] [(0, [50]), (0, [51]), (4, [52])] (-1))
       = Inr ([[50], [51]], sampleStore,
              (mkResultSet 7 [1] [] [(0, [50]), (0, [51]), (4, [52])] (-1))
                 \<lparr>pyobjects := [(4, [52])], rowsRetrieved := 2, totalRowCounter := 1\<rparr>)
   \<and> emitsTagged sampleRuntime sampleStore (mkResultSet 7 [1] [] [(0, [50]), (0, [51]), (4, [52])] (-1))"
proof -
  let ?s = "mkResultSet (7::nat) [1] [] [(0, [50::byte]), (0, [51]), (4, [52])] (-1)"
  have py: "pyobjects ?s = (0, [50]) # (0, [51]) # [(4, [52])]" by (simp add: mkResultSet_def)
  have due: "partitions ?s = [] \<or> 0 \<le> totalRowCounter ?s" by simp
  have e: "emitsTagged sampleRuntime sampleStore ?s"
    by (simp add: emitsTagged_def eval_defs)
  from duplicate_index_pair [where s = ?s and i = 0 and a = "[50]" and b = "[51]" and rest = "[(4, [52])]"
              and c = sampleRuntime and h = sampleStore, THEN conjunct1] py due
  have "pullRows sampleRuntime (Suc (Suc 0)) sampleStore ?s
       = Inr ([[50], [51]], sampleStore,
              ?s\<lparr>pyobjects := [(4, [52])], rowsRetrieved := 2, totalRowCounter := 1\<rparr>)"
    by (simp add: sampleRuntime_def mkResultSet_def)
  then show ?thesis using py e by simp
qed

text \<open>
  The claim as written fails in two ways. With a partition queued and the shared index 5
  above \<open>totalRowCounter = 0\<close>, the two calls return the partition rows \<open>[10]\<close> and
  \<open>[11]\<close>, not the tagged rows. With three tagged rows of index 0 and no partition, the
  two calls emit the first two rows and \<open>totalRowCounter\<close> stays 0.
\<close>

theorem duplicate_index_pair_counterexample:
  "map_sum id fst (pullRows sampleRuntime (Suc (Suc 0)) sampleStore
        (mkResultSet 7 [1] [] [(5, [50]), (5, [51])] (-1))) = Inr [[10], [11]]
   \<and> pullRows sampleRuntime (Suc (Suc 0)) sampleStore
        (mkResultSet 7 [] [] [(0, [50]), (0, [51]), (0, [52])] (-1))
       = Inr ([[50], [51]], sampleStore,
              (mkResultSet 7 [] [] [(0, [50]), (0, [51]), (0, [52])] (-1))
                 \<lparr>pyobjects := [(0, [52])], rowsRetrieved := 2, totalRowCounter := 0\<rparr>)"
  by (simp add: eval_defs)

subsection \<open>The row budget\<close>

lemmas call_defs = hasNextPartition_def getNextPartition_def rowCount_def clear_def

lemma readPartitionRow_counts:
  "readPartitionRow c h s = Inr (row, h2, s2) \<Longrightarrow>
   maxRows s2 = maxRows s \<and>
   rowsRetrieved s2 = rowsRetrieved s + (if partitions s = [] then 0 else 1)"
  unfolding readPartitionRow_def removeFirstPartition_def Let_def
  by (auto split: list.splits option.splits if_splits)

lemma getNextRow_counts:
  assumes g: "getNextRow c h s = Inr (row, h2, s2)"
  shows "maxRows s2 = maxRows s \<and>
     rowsRetrieved s2 = rowsRetrieved s + (if partitions s = [] \<and> pyobjects s = [] then 0 else 1)"
proof (cases "pyobjects s")
  case Nil
  then show ?thesis using g readPartitionRow_counts [of c h s row h2 s2]
    by (simp add: getNextRow_no_pyobjects)
next
  case (Cons x rest)
  obtain i obj where x: "x = (i, obj)" by (cases x)
  have py: "pyobjects s = (i, obj) # rest" using Cons x by simp
  show ?thesis
  proof (cases "partitions s = [] \<or> i \<le> totalRowCounter s")
    case True
    from getNextRow_due [OF py True, of c h] g py show ?thesis by auto
  next
    case False
    then have "getNextRow c h s = readPartitionRow c h s"
      using getNextRow_not_due [OF py] by simp
    then show ?thesis using g readPartitionRow_counts [of c h s row h2 s2] False py by simp
  qed
qed

lemma hasNextRow_budget:
  "maxRows s \<le> rowsRetrieved s \<Longrightarrow> hasNextRow h s = Inr False"
  by (simp add: hasNextRow_def)

lemma hasNextPartition_budget:
  "maxRows s \<le> rowsRetrieved s \<Longrightarrow> hasNextPartition h s = Inr False"
  by (simp add: hasNextPartition_def)

lemma hasNextRow_True:
  "hasNextRow h s = Inr True \<Longrightarrow> rowsRetrieved s < maxRows s"
  by (cases "maxRows s \<le> rowsRetrieved s") (simp_all add: hasNextRow_budget)

lemma clear_counts:
  "clear h s = Inr (h2, s2) \<Longrightarrow>
   s2 = s\<lparr>partitions := [], curRowCounter := 0, byteCounter := 0, maxRows := 0, rowsRetrieved := 0\<rparr>"
  by (auto simp: clear_def split: sum.splits)

lemma exec_budget:
  assumes inv: "rowsRetrieved s \<le> maxRows s"
    and g: "if x = GetNextRow then hasNextRow h s = Inr True else x \<noteq> GetNextPartition"
    and e: "exec c x h s = Inr (h1, s1)"
  shows "rowsRetrieved s1 \<le> maxRows s1"
proof (cases x)
  case GetNextRow
  with g have "rowsRetrieved s < maxRows s" by (simp add: hasNextRow_True)
  moreover from e GetNextRow obtain row where "getNextRow c h s = Inr (row, h1, s1)"
    by (auto split: sum.splits)
  ultimately show ?thesis using getNextRow_counts [of c h s row h1 s1] by (simp split: if_splits)
next
  case GetNextPartition
  with g show ?thesis by simp
next
  case HasNextRow
  with e inv show ?thesis by (auto split: sum.splits)
next
  case HasNextPartition
  with e inv show ?thesis by (auto split: sum.splits)
next
  case RowCount
  with e inv show ?thesis by (auto split: sum.splits)
next
  case Clear
  with e have "clear h s = Inr (h1, s1)" by simp
  from clear_counts [OF this] show ?thesis by simp
qed

lemma execAll_budget:
  "rowsRetrieved s \<le> maxRows s \<Longrightarrow> guarded c calls h s \<Longrightarrow>
   execAll c calls h s = Inr (h2, s2) \<Longrightarrow> rowsRetrieved s2 \<le> maxRows s2"
proof (induction calls arbitrary: h s)
  case Nil
  then show ?case by simp
next
  case (Cons x xs)
  from Cons.prems(3) obtain h1 s1 where e: "exec c x h s = Inr (h1, s1)"
    and r: "execAll c xs h1 s1 = Inr (h2, s2)"
    by (auto split: sum.splits)
  from Cons.prems(2) e have g: "if x = GetNextRow then hasNextRow h s = Inr True else x \<noteq> GetNextPartition"
    and gs: "guarded c xs h1 s1" by simp_all
  from exec_budget [OF Cons.prems(1) g e] have "rowsRetrieved s1 \<le> maxRows s1" .
  from Cons.IH [OF this gs r] show ?case .
qed

lemma removeFirstPartition_maxRows:
  "removeFirstPartition h (s\<lparr>maxRows := m\<rparr>) =
     (case removeFirstPartition h s of
        Inl e \<Rightarrow> Inl e
      | Inr (h2, s2) \<Rightarrow> Inr (h2, s2\<lparr>maxRows := m\<rparr>))"
  by (simp add: removeFirstPartition_def split: list.splits option.splits)

lemma readPartitionRow_maxRows:
  "readPartitionRow c h (s\<lparr>maxRows := m\<rparr>) =
     (case readPartitionRow c h s of
        Inl e \<Rightarrow> Inl e
      | Inr (row, h2, s2) \<Rightarrow> Inr (row, h2, s2\<lparr>maxRows := m\<rparr>))"
  by (simp add: readPartitionRow_def removeFirstPartition_def Let_def
        split: list.splits option.splits)

lemma getNextRow_maxRows:
  "getNextRow c h (s\<lparr>maxRows := m\<rparr>) =
     (case getNextRow c h s of
        Inl e \<Rightarrow> Inl e
      | Inr (row, h2, s2) \<Rightarrow> Inr (row, h2, s2\<lparr>maxRows := m\<rparr>))"
  by (simp add: getNextRow_def readPartitionRow_maxRows emitPyObject_def Let_def
        split: list.splits prod.splits)

lemma getNextPartition_maxRows:
  "getNextPartition h (s\<lparr>maxRows := m\<rparr>) =
     (case getNextPartition h s of
        Inl e \<Rightarrow> Inl e
      | Inr (r, s2) \<Rightarrow> Inr (r, s2\<lparr>maxRows := m\<rparr>))"
  by (simp add: getNextPartition_def split: list.splits option.splits)

lemma getNextPartition_front:
  "partitions s = first # rest \<Longrightarrow> h first = Some p \<Longrightarrow> pschema p = schema s \<Longrightarrow>
   getNextPartition h s =
     Inr (Some first,
          s\<lparr>rowsRetrieved := rowsRetrieved s + getNumRows p, partitions := rest,
            curRowCounter := 0, byteCounter := 0\<rparr>)"
  by (simp add: getNextPartition_def)

text \<open>
  Claim C2, amended. In every state reached from a freshly constructed cursor by a
  sequence of calls of \<^verbatim>\<open>getNextRow()\<close>, each made in a state where \<^verbatim>\<open>hasNextRow()\<close>
  is true, and of \<^verbatim>\<open>hasNextRow()\<close>, \<^verbatim>\<open>hasNextPartition()\<close>, \<^verbatim>\<open>rowCount()\<close> and
  \<^verbatim>\<open>clear()\<close>, \<open>rowsRetrieved \<le> maxRows\<close> holds; and in every state with
  \<open>rowsRetrieved \<ge> maxRows\<close>, \<^verbatim>\<open>hasNextRow()\<close> and \<^verbatim>\<open>hasNextPartition()\<close> report
  false, whatever the queues hold. \<^verbatim>\<open>getNextRow()\<close> and \<^verbatim>\<open>getNextPartition()\<close> do
  not read the budget: with another value of \<open>maxRows\<close> they return the same result and
  make the same changes to the state. \<^verbatim>\<open>getNextPartition()\<close> on a queue with a valid
  front partition of the cursor's schema pops it and adds its whole row count to
  \<open>rowsRetrieved\<close>.
\<close>

theorem budget_under_pull_protocol:
  "(guarded c calls h (mkResultSet sch ps excs objs maxR)
      \<and> execAll c calls h (mkResultSet sch ps excs objs maxR) = Inr (h2, s2)
    \<longrightarrow> rowsRetrieved s2 \<le> maxRows s2)
   \<and> (maxRows s \<le> rowsRetrieved s \<longrightarrow>
        hasNextRow h s = Inr False \<and> hasNextPartition h s = Inr False)
   \<and> getNextRow c h (s\<lparr>maxRows := m\<rparr>) =
        (case getNextRow c h s of
           Inl e \<Rightarrow> Inl e
         | Inr (row, h1, s1) \<Rightarrow> Inr (row, h1, s1\<lparr>maxRows := m\<rparr>))
   \<and> getNextPartition h (s\<lparr>maxRows := m\<rparr>) =
        (case getNextPartition h s of
           Inl e \<Rightarrow> Inl e
         | Inr (r, s1) \<Rightarrow> Inr (r, s1\<lparr>maxRows := m\<rparr>))
   \<and> (partitions s = first # rest \<and> h first = Some p \<and> pschema p = schema s \<longrightarrow>
        getNextPartition h s =
          Inr (Some first,
               s\<lparr>rowsRetrieved := rowsRetrieved s + getNumRows p, partitions := rest,
                 curRowCounter := 0, byteCounter := 0\<rparr>))"
proof -
  have a: "guarded c calls h (mkResultSet sch ps excs objs maxR)
      \<and> execAll c calls h (mkResultSet sch ps excs objs maxR) = Inr (h2, s2)
    \<longrightarrow> rowsRetrieved s2 \<le> maxRows s2"
  proof
    assume a: "guarded c calls h (mkResultSet sch ps excs objs maxR)
      \<and> execAll c calls h (mkResultSet sch ps excs objs maxR) = Inr (h2, s2)"
    have "rowsRetrieved (mkResultSet sch ps excs objs maxR) \<le> maxRows (mkResultSet sch ps excs objs maxR)"
      by (simp add: mkResultSet_def)
    from execAll_budget [OF this] a show "rowsRetrieved s2 \<le> maxRows s2" by blast
  qed
  have b: "maxRows s \<le> rowsRetrieved s \<longrightarrow>
        hasNextRow h s = Inr False \<and> hasNextPartition h s = Inr False"
    by (simp add: hasNextRow_budget hasNextPartition_budget)
  have d: "partitions s = first # rest \<and> h first = Some p \<and> pschema p = schema s \<longrightarrow>
        getNextPartition h s =
          Inr (Some first,
               s\<lparr>rowsRetrieved := rowsRetrieved s + getNumRows p, partitions := rest,
                 curRowCounter := 0, byteCounter := 0\<rparr>)"
    by (simp add: getNextPartition_def)
  from a b d show ?thesis
    using getNextRow_maxRows [where c = c and h = h and s = s and m = m]
      getNextPartition_maxRows [where h = h and s = s and m = m] by blast
qed

theorem budget_under_pull_protocol_witness:
  "guarded sampleRuntime [HasNextRow, GetNextRow, RowCount, HasNextPartition, Clear, HasNextRow]
      sampleStore (mkResultSet 7 [1] [3] [] 1)
   \<and> map_sum id snd (execAll sampleRuntime
         [HasNextRow, GetNextRow, RowCount, HasNextPartition, Clear, HasNextRow]
         sampleStore (mkResultSet 7 [1] [3] [] 1))
       = Inr ((mkResultSet 7 [] [3] [] 0)\<lparr>totalRowCounter := 1\<rparr>)
   \<and> hasNextRow sampleStore ((mkResultSet 7 [1] [3] ([]::(nat \<times> byte list) list) 1)\<lparr>rowsRetrieved := 1\<rparr>) = Inr False
   \<and> hasNextPartition sampleStore ((mkResultSet 7 [1] [3] ([]::(nat \<times> byte list) list) 1)\<lparr>rowsRetrieved := 1\<rparr>) = Inr False
   \<and> sampleStore 1 = Some partA \<and> pschema partA = 7
   \<and> getNextPartition sampleStore ((mkResultSet 7 [1] [3] ([]::(nat \<times> byte list) list) 1)\<lparr>rowsRetrieved := 1\<rparr>)
       = Inr (Some 1, (mkResultSet 7 [] [3] [] 1)\<lparr>rowsRetrieved := 3\<rparr>)"
proof -
  let ?calls = "[HasNextRow, GetNextRow, RowCount, HasNextPartition, Clear, HasNextRow]"
  let ?s0 = "mkResultSet (7::nat) [1] [3] ([]::(nat \<times> byte list) list) 1"
  have g: "guarded sampleRuntime ?calls sampleStore ?s0"
    by (simp add: eval_defs call_defs)
  have e: "map_sum id snd (execAll sampleRuntime ?calls sampleStore ?s0)
       = Inr ((mkResultSet 7 [] [3] [] 0)\<lparr>totalRowCounter := 1\<rparr>)"
    by (simp add: eval_defs call_defs)
  then obtain h2 where e2: "execAll sampleRuntime ?calls sampleStore ?s0
       = Inr (h2, (mkResultSet 7 [] [3] [] 0)\<lparr>totalRowCounter := 1\<rparr>)"
    by (cases "execAll sampleRuntime ?calls sampleStore ?s0") auto
  have m: "maxRows (?s0\<lparr>rowsRetrieved := 1\<rparr>) \<le> rowsRetrieved (?s0\<lparr>rowsRetrieved := 1\<rparr>)"
    by (simp add: mkResultSet_def)
  have f: "partitions (?s0\<lparr>rowsRetrieved := 1\<rparr>) = 1 # [] \<and> sampleStore 1 = Some partA
      \<and> pschema partA = schema (?s0\<lparr>rowsRetrieved := 1\<rparr>)"
    by (simp add: sample_defs)
  note t = budget_under_pull_protocol [where c = sampleRuntime and calls = ?calls and h = sampleStore
       and sch = 7 and ps = "[1]" and excs = "[3]" and objs = "[]" and maxR = 1 and ?h2.0 = h2
       and ?s2.0 = "(mkResultSet 7 [] [3] [] 0)\<lparr>totalRowCounter := 1\<rparr>"
       and s = "?s0\<lparr>rowsRetrieved := 1\<rparr>" and first = 1 and rest = "[]" and p = partA]
  from t m have hn: "hasNextRow sampleStore (?s0\<lparr>rowsRetrieved := 1\<rparr>) = Inr False
      \<and> hasNextPartition sampleStore (?s0\<lparr>rowsRetrieved := 1\<rparr>) = Inr False"
    by blast
  from t f have "getNextPartition sampleStore (?s0\<lparr>rowsRetrieved := 1\<rparr>) =
          Inr (Some 1,
               ?s0\<lparr>rowsRetrieved := 1\<rparr>\<lparr>rowsRetrieved := rowsRetrieved (?s0\<lparr>rowsRetrieved := 1\<rparr>) + getNumRows partA,
                 partitions := [], curRowCounter := 0, byteCounter := 0\<rparr>)"
    by blast
  then have gp: "getNextPartition sampleStore (?s0\<lparr>rowsRetrieved := 1\<rparr>)
       = Inr (Some 1, (mkResultSet 7 [] [3] [] 1)\<lparr>rowsRetrieved := 3\<rparr>)"
    by (simp add: sample_defs getNumRows_def)
  have f2: "sampleStore 1 = Some partA \<and> pschema partA = 7"
    by (simp add: sample_defs)
  from g e hn f2 gp show ?thesis by blast
qed

text \<open>
  The claim as written fails on the cursor over partition 1 (two rows) with the budget 1.
  Two calls of \<^verbatim>\<open>getNextRow()\<close> leave \<open>rowsRetrieved = 2\<close> above \<open>maxRows = 1\<close>, and
  the second call, made when \<open>rowsRetrieved\<close> equals \<open>maxRows\<close>, returns the row \<open>[11]\<close>.
  On the fresh cursor \<^verbatim>\<open>hasNextPartition()\<close> is true, and \<^verbatim>\<open>getNextPartition()\<close>
  adds the two rows of the partition to \<open>rowsRetrieved\<close>.
\<close>

theorem budget_overrun_counterexample:
  "map_sum id snd (execAll sampleRuntime [GetNextRow, GetNextRow] sampleStore (mkResultSet 7 [1] [] [] 1))
     = Inr ((mkResultSet 7 [] [] [] 1)\<lparr>rowsRetrieved := 2, totalRowCounter := 2\<rparr>)
   \<and> map_sum id fst (pullRows sampleRuntime (Suc (Suc 0)) sampleStore (mkResultSet 7 [1] [] [] 1))
     = Inr [[10], [11]]
   \<and> hasNextPartition sampleStore (mkResultSet 7 [1] [] ([]::(nat \<times> byte list) list) 1) = Inr True
   \<and> getNextPartition sampleStore (mkResultSet 7 [1] [] ([]::(nat \<times> byte list) list) 1)
     = Inr (Some 1, (mkResultSet 7 [] [] [] 1)\<lparr>rowsRetrieved := 2\<rparr>)"
  by (simp add: eval_defs call_defs)

lemma pullRows_counts:
  "pullRows c n h s = Inr (rows, h2, s2) \<Longrightarrow>
   maxRows s2 = maxRows s \<and> rowsRetrieved s2 = rowsRetrieved s + successfulPulls c n h s"
proof (induction n arbitrary: h s rows)
  case 0
  then show ?case by simp
next
  case (Suc n)
  from Suc.prems obtain row h1 s1 rows1 where g: "getNextRow c h s = Inr (row, h1, s1)"
    and p: "pullRows c n h1 s1 = Inr (rows1, h2, s2)"
    by (auto split: sum.splits)
  from Suc.IH [OF p] getNextRow_counts [OF g] g show ?case by simp
qed

lemma getNextRow_reads:
  "partitions s \<noteq> [] \<Longrightarrow> pyobjects s = [] \<or> totalRowCounter s < fst (hd (pyobjects s)) \<Longrightarrow>
   getNextRow c h s = readPartitionRow c h s"
  by (cases "pyobjects s") (auto simp: getNextRow_def)

lemma getNextRow_ready:
  assumes ok: "queueOk h s" and fit: "queueFits c h s"
    and g: "getNextRow c h s = Inr (row, h2, s2)"
  shows "queueOk h2 s2 \<and> queueFits c h2 s2"
proof (cases "partitions s \<noteq> [] \<and> (pyobjects s = [] \<or> totalRowCounter s < fst (hd (pyobjects s)))")
  case True
  then have "getNextRow c h s = readPartitionRow c h s" by (simp add: getNextRow_reads)
  with readPartitionRow_step [OF ok fit] True g show ?thesis by auto
next
  case False
  show ?thesis
  proof (cases "pyobjects s")
    case Nil
    with False have "partitions s = []" by simp
    with Nil g ok fit show ?thesis by (simp add: getNextRow_empty)
  next
    case (Cons x xs)
    obtain i obj where x: "x = (i, obj)" by (cases x)
    have py: "pyobjects s = (i, obj) # xs" using Cons x by simp
    from False py have due: "partitions s = [] \<or> i \<le> totalRowCounter s" by auto
    from getNextRow_due [OF py due, of c h] g ok fit show ?thesis
      by (auto simp: queueOk_frame queueFits_frame)
  qed
qed

lemma pullRows_ready:
  "queueOk h s \<Longrightarrow> queueFits c h s \<Longrightarrow> pullRows c n h s = Inr (rows, h2, s2) \<Longrightarrow>
   queueOk h2 s2 \<and> queueFits c h2 s2"
proof (induction n arbitrary: h s rows)
  case 0
  then show ?case by simp
next
  case (Suc n)
  from Suc.prems(3) obtain row h1 s1 rows1 where g: "getNextRow c h s = Inr (row, h1, s1)"
    and p: "pullRows c n h1 s1 = Inr (rows1, h2, s2)"
    by (auto split: sum.splits)
  from getNextRow_ready [OF Suc.prems(1) Suc.prems(2) g]
  have "queueOk h1 s1" and "queueFits c h1 s1" by simp_all
  from Suc.IH [OF this p] show ?case .
qed

text \<open>
  Claim C3, amended. After \<open>n\<close> calls of \<^verbatim>\<open>getNextRow()\<close> on a freshly constructed
  cursor, \<open>rowsRetrieved\<close> is the number of successful calls among them and the budget is
  the one of the constructor. So after exactly \<open>maxRows\<close> successful calls
  \<^verbatim>\<open>hasNextRow()\<close> returns false; and once both queues are empty (which may be earlier)
  \<^verbatim>\<open>hasNextRow()\<close> returns false and every further call of \<^verbatim>\<open>getNextRow()\<close> returns
  the default row. The next call of \<^verbatim>\<open>getNextRow()\<close> does not read the budget: with
  another value of \<open>maxRows\<close> it returns the same row and makes the same changes; so also
  after the budget is used up, while rows are still queued, it is successful and returns
  the next row: the front tagged row when that row is due, and else, on a cursor built
  over well-formed partitions, the first unread row of the partition queue.
\<close>

theorem exhaustion_after_pulls:
  "pullRows c n h (mkResultSet sch ps excs objs maxR) = Inr (rows, h2, s2) \<Longrightarrow>
   rowsRetrieved s2 = successfulPulls c n h (mkResultSet sch ps excs objs maxR)
   \<and> maxRows s2 = maxRows (mkResultSet sch ps excs objs maxR)
   \<and> (rowsRetrieved s2 = maxRows s2 \<longrightarrow> hasNextRow h2 s2 = Inr False)
   \<and> (partitions s2 = [] \<and> pyobjects s2 = [] \<longrightarrow>
        hasNextRow h2 s2 = Inr False
        \<and> pullRows c m h2 s2 = Inr (replicate m (emptyRow c), h2, s2))
   \<and> (pyobjects s2 = (i, obj) # rest \<and> (partitions s2 = [] \<or> i \<le> totalRowCounter s2) \<longrightarrow>
        (\<exists>s3. getNextRow c h2 s2 = Inr (pythonToRow c obj, h2, s3)
              \<and> rowsRetrieved s3 = Suc (rowsRetrieved s2)))
   \<and> (wellFormedQueue c sch h ps \<and> partitions s2 \<noteq> []
        \<and> (pyobjects s2 = [] \<or> totalRowCounter s2 < fst (hd (pyobjects s2))) \<longrightarrow>
        (\<exists>h3 s3. getNextRow c h2 s2 = Inr (hd (unreadRows c h2 s2), h3, s3)
              \<and> unreadRows c h2 s2 \<noteq> []
              \<and> rowsRetrieved s3 = Suc (rowsRetrieved s2)))
   \<and> getNextRow c h2 (s2\<lparr>maxRows := b\<rparr>) =
        (case getNextRow c h2 s2 of
           Inl e \<Rightarrow> Inl e
         | Inr (row, h3, s3) \<Rightarrow> Inr (row, h3, s3\<lparr>maxRows := b\<rparr>))"
proof -
  assume p: "pullRows c n h (mkResultSet sch ps excs objs maxR) = Inr (rows, h2, s2)"
  have r0: "rowsRetrieved (mkResultSet sch ps excs objs maxR) = 0" by (simp add: mkResultSet_def)
  from pullRows_counts [OF p] r0
  have c1: "rowsRetrieved s2 = successfulPulls c n h (mkResultSet sch ps excs objs maxR)"
    and c2: "maxRows s2 = maxRows (mkResultSet sch ps excs objs maxR)" by simp_all
  have c3: "rowsRetrieved s2 = maxRows s2 \<longrightarrow> hasNextRow h2 s2 = Inr False"
    by (simp add: hasNextRow_budget)
  have c4: "partitions s2 = [] \<and> pyobjects s2 = [] \<longrightarrow>
        hasNextRow h2 s2 = Inr False \<and> pullRows c m h2 s2 = Inr (replicate m (emptyRow c), h2, s2)"
    by (simp add: hasNextRow_empty pullRows_empty)
  have c5: "pyobjects s2 = (i, obj) # rest \<and> (partitions s2 = [] \<or> i \<le> totalRowCounter s2) \<longrightarrow>
        (\<exists>s3. getNextRow c h2 s2 = Inr (pythonToRow c obj, h2, s3)
              \<and> rowsRetrieved s3 = Suc (rowsRetrieved s2))"
  proof
    assume a: "pyobjects s2 = (i, obj) # rest \<and> (partitions s2 = [] \<or> i \<le> totalRowCounter s2)"
    then have py: "pyobjects s2 = (i, obj) # rest"
      and due: "partitions s2 = [] \<or> i \<le> totalRowCounter s2" by simp_all
    from getNextRow_due [OF py due, of c h2]
    show "\<exists>s3. getNextRow c h2 s2 = Inr (pythonToRow c obj, h2, s3)
              \<and> rowsRetrieved s3 = Suc (rowsRetrieved s2)"
      by simp
  qed
  have c6: "wellFormedQueue c sch h ps \<and> partitions s2 \<noteq> []
        \<and> (pyobjects s2 = [] \<or> totalRowCounter s2 < fst (hd (pyobjects s2))) \<longrightarrow>
        (\<exists>h3 s3. getNextRow c h2 s2 = Inr (hd (unreadRows c h2 s2), h3, s3)
              \<and> unreadRows c h2 s2 \<noteq> []
              \<and> rowsRetrieved s3 = Suc (rowsRetrieved s2))"
  proof
    assume a: "wellFormedQueue c sch h ps \<and> partitions s2 \<noteq> []
        \<and> (pyobjects s2 = [] \<or> totalRowCounter s2 < fst (hd (pyobjects s2)))"
    then have wf: "wellFormedQueue c sch h ps" and ne: "partitions s2 \<noteq> []"
      and nd: "pyobjects s2 = [] \<or> totalRowCounter s2 < fst (hd (pyobjects s2))" by simp_all
    from wellFormedQueue_ready [OF wf, of excs objs maxR]
    have "queueOk h (mkResultSet sch ps excs objs maxR)"
      and "queueFits c h (mkResultSet sch ps excs objs maxR)" by simp_all
    from pullRows_ready [OF this p] have ok: "queueOk h2 s2" and fit: "queueFits c h2 s2"
      by simp_all
    from readPartitionRow_step [OF ok fit ne] getNextRow_reads [OF ne nd, of c h2]
    show "\<exists>h3 s3. getNextRow c h2 s2 = Inr (hd (unreadRows c h2 s2), h3, s3)
              \<and> unreadRows c h2 s2 \<noteq> []
              \<and> rowsRetrieved s3 = Suc (rowsRetrieved s2)"
      by auto
  qed
  from c1 c2 c3 c4 c5 c6 show ?thesis
    using getNextRow_maxRows [where c = c and h = h2 and s = s2 and m = b] by blast
qed

theorem exhaustion_after_pulls_witness:
  "pullRows sampleRuntime (Suc (Suc 0)) sampleStore (mkResultSet 7 [1] [] [] 2)
     = Inr ([[10], [11]], sampleStore(1 \<mapsto> invalidate partA),
            (mkResultSet 7 [] [] [] 2)\<lparr>rowsRetrieved := 2, totalRowCounter := 2\<rparr>)
   \<and> successfulPulls sampleRuntime (Suc (Suc 0)) sampleStore (mkResultSet 7 [1] [] [] 2) = 2
   \<and> hasNextRow (sampleStore(1 \<mapsto> invalidate partA))
        ((mkResultSet 7 [] [] ([]::(nat \<times> byte list) list) 2)\<lparr>rowsRetrieved := 2, totalRowCounter := 2\<rparr>) = Inr False
   \<and> pullRows sampleRuntime (Suc (Suc (Suc 0))) (sampleStore(1 \<mapsto> invalidate partA))
        ((mkResultSet 7 [] [] [] 2)\<lparr>rowsRetrieved := 2, totalRowCounter := 2\<rparr>)
     = Inr ([[], [], []], sampleStore(1 \<mapsto> invalidate partA),
            (mkResultSet 7 [] [] [] 2)\<lparr>rowsRetrieved := 2, totalRowCounter := 2\<rparr>)
   \<and> pullRows sampleRuntime (Suc 0) sampleStore (mkResultSet 7 [1] [] [] 1)
     = Inr ([[10]], sampleStore,
            (mkResultSet 7 [1] [] [] 1)\<lparr>curRowCounter := 1, byteCounter := 2,
                rowsRetrieved := 1, totalRowCounter := 1\<rparr>)
   \<and> wellFormedQueue sampleRuntime 7 sampleStore [1]
   \<and> hasNextRow sampleStore
        ((mkResultSet 7 [1] [] ([]::(nat \<times> byte list) list) 1)\<lparr>curRowCounter := 1, byteCounter := 2,
                rowsRetrieved := 1, totalRowCounter := 1\<rparr>) = Inr False
   \<and> (\<exists>h3 s3. getNextRow sampleRuntime sampleStore
          ((mkResultSet 7 [1] [] [] 1)\<lparr>curRowCounter := 1, byteCounter := 2,
                rowsRetrieved := 1, totalRowCounter := 1\<rparr>) = Inr ([11], h3, s3)
          \<and> rowsRetrieved s3 = Suc (Suc 0))
   \<and> pullRows sampleRuntime 0 sampleStore (mkResultSet 7 [] [] [(0, [5])] 0)
     = Inr ([], sampleStore, mkResultSet 7 [] [] [(0, [5])] 0)
   \<and> (\<exists>s3. getNextRow sampleRuntime sampleStore (mkResultSet 7 [] [] [(0, [5])] 0)
          = Inr ([5], sampleStore, s3) \<and> rowsRetrieved s3 = 1)"
proof -
  let ?s0 = "mkResultSet (7::nat) [1] [] ([]::(nat \<times> byte list) list) 2"
  let ?h2 = "sampleStore(1 \<mapsto> invalidate partA)"
  let ?s2 = "(mkResultSet (7::nat) [] [] ([]::(nat \<times> byte list) list) 2)\<lparr>rowsRetrieved := 2, totalRowCounter := 2\<rparr>"
  have p: "pullRows sampleRuntime (Suc (Suc 0)) sampleStore ?s0 = Inr ([[10], [11]], ?h2, ?s2)"
    by (simp add: eval_defs)
  have e: "partitions ?s2 = [] \<and> pyobjects ?s2 = []" by (simp add: mkResultSet_def)
  have b: "rowsRetrieved ?s2 = maxRows ?s2" by (simp add: mkResultSet_def)
  from exhaustion_after_pulls [OF p, of "Suc (Suc (Suc 0))"] e b
  have first: "successfulPulls sampleRuntime (Suc (Suc 0)) sampleStore ?s0 = 2
      \<and> hasNextRow ?h2 ?s2 = Inr False
      \<and> pullRows sampleRuntime (Suc (Suc (Suc 0))) ?h2 ?s2 = Inr ([[], [], []], ?h2, ?s2)"
    by (simp add: sampleRuntime_def)
  let ?t0 = "mkResultSet (7::nat) [1] [] ([]::(nat \<times> byte list) list) 1"
  let ?t1 = "?t0\<lparr>curRowCounter := 1, byteCounter := 2, rowsRetrieved := 1, totalRowCounter := 1\<rparr>"
  have q: "pullRows sampleRuntime (Suc 0) sampleStore ?t0 = Inr ([[10]], sampleStore, ?t1)"
    by (simp add: eval_defs)
  have wf: "wellFormedQueue sampleRuntime 7 sampleStore [1]"
    by (simp add: wellFormedQueue_def partitionOk_def partitionFits_def rowsInBounds_numeral
          rowsInBounds_1 sample_defs getNumRows_def capacity_def Let_def)
  have u: "unreadRows sampleRuntime sampleStore ?t1 = [[11]]"
    by (simp add: unreadRows_def eval_defs)
  have bt: "rowsRetrieved ?t1 = maxRows ?t1" and nt: "partitions ?t1 \<noteq> []" and pt: "pyobjects ?t1 = []"
    by (simp_all add: mkResultSet_def)
  note t = exhaustion_after_pulls [OF q]
  from t bt have hn: "hasNextRow sampleStore ?t1 = Inr False" by blast
  from t wf nt pt have "\<exists>h3 s3. getNextRow sampleRuntime sampleStore ?t1
          = Inr (hd (unreadRows sampleRuntime sampleStore ?t1), h3, s3)
          \<and> unreadRows sampleRuntime sampleStore ?t1 \<noteq> []
          \<and> rowsRetrieved s3 = Suc (rowsRetrieved ?t1)"
    by blast
  then have second: "\<exists>h3 s3. getNextRow sampleRuntime sampleStore ?t1 = Inr ([11], h3, s3)
          \<and> rowsRetrieved s3 = Suc (Suc 0)"
    unfolding u by (simp add: mkResultSet_def)
  let ?v0 = "mkResultSet (7::nat) [] [] [(0, [5::byte])] 0"
  have r: "pullRows sampleRuntime 0 sampleStore ?v0 = Inr ([], sampleStore, ?v0)" by simp
  have pv: "pyobjects ?v0 = (0, [5]) # [] \<and> (partitions ?v0 = [] \<or> 0 \<le> totalRowCounter ?v0)"
    by (simp add: mkResultSet_def)
  from exhaustion_after_pulls [OF r] pv
  have "\<exists>s3. getNextRow sampleRuntime sampleStore ?v0 = Inr (pythonToRow sampleRuntime [5], sampleStore, s3)
          \<and> rowsRetrieved s3 = Suc (rowsRetrieved ?v0)"
    by blast
  then have third: "\<exists>s3. getNextRow sampleRuntime sampleStore ?v0 = Inr ([5], sampleStore, s3)
          \<and> rowsRetrieved s3 = 1"
    by (simp add: sampleRuntime_def mkResultSet_def)
  from p first q wf hn second r third show ?thesis by blast
qed

text \<open>
  The claim as written fails on the cursor over partition 1 (two rows) with the budget 1:
  after one successful call the budget is used up, and the next call returns the row
  \<open>[11]\<close>, not the default row \<open>[]\<close>.
\<close>

theorem exhaustion_counterexample:
  "successfulPulls sampleRuntime (Suc 0) sampleStore (mkResultSet 7 [1] [] [] 1) = 1
   \<and> maxRows (mkResultSet (7::nat) [1] [] ([]::(nat \<times> byte list) list) 1) = 1
   \<and> map_sum id fst (pullRows sampleRuntime (Suc (Suc 0)) sampleStore (mkResultSet 7 [1] [] [] 1))
       = Inr [[10], [11]]
   \<and> emptyRow sampleRuntime = []"
  by (simp add: eval_defs)

subsection \<open>Invalidation of partitions\<close>




















subsection \<open>\<^verbatim>\<open>clear()\<close>\<close>

lemma invalidateAll_valid:
  "list_all (\<lambda>a. h a \<noteq> None) as \<Longrightarrow> \<exists>h2. invalidateAll h as = Inr h2"
proof (induction as arbitrary: h)
  case Nil
  then show ?case by simp
next
  case (Cons a as)
  from Cons.prems obtain p where hp: "h a = Some p" by auto
  have "list_all (\<lambda>b. (h(a \<mapsto> invalidate p)) b \<noteq> None) as"
    using Cons.prems by (simp add: list_all_iff)
  then have "\<exists>h2. invalidateAll (h(a \<mapsto> invalidate p)) as = Inr h2"
    by (rule Cons.IH [of "h(a \<mapsto> invalidate p)"])
  with hp show ?case by simp
qed

lemma invalidateAll_dom:
  "invalidateAll h as = Inr h2 \<Longrightarrow> (h2 a \<noteq> None) = (h a \<noteq> None)"
proof (induction as arbitrary: h)
  case Nil
  then show ?case by simp
next
  case (Cons b bs)
  from Cons.prems obtain p where hb: "h b = Some p"
    and r: "invalidateAll (h(b \<mapsto> invalidate p)) bs = Inr h2"
    by (auto split: option.splits)
  from Cons.IH [OF r] hb show ?case by (cases "a = b") simp_all
qed

lemma invalidateAll_grows:
  "invalidateAll h as = Inr h2 \<Longrightarrow> h a = Some p \<Longrightarrow>
   \<exists>q. h2 a = Some q \<and> invalidations p \<le> invalidations q
      \<and> (a \<in> set as \<longrightarrow> invalidations p < invalidations q)"
proof (induction as arbitrary: h p)
  case Nil
  then show ?case by simp
next
  case (Cons b bs)
  from Cons.prems(1) obtain pb where hb: "h b = Some pb"
    and r: "invalidateAll (h(b \<mapsto> invalidate pb)) bs = Inr h2"
    by (auto split: option.splits)
  show ?case
  proof (cases "a = b")
    case True
    then have "(h(b \<mapsto> invalidate pb)) a = Some (invalidate p)" using hb Cons.prems(2) by simp
    from Cons.IH [OF r this] True show ?thesis by (auto simp: invalidate_def)
  next
    case False
    then have "(h(b \<mapsto> invalidate pb)) a = Some p" using Cons.prems(2) by simp
    from Cons.IH [OF r this] False show ?thesis by auto
  qed
qed

text \<open>
  What \<^verbatim>\<open>clear()\<close> does on valid pointers: it does not fail, every partition of the
  queue and of the exception list has received a call of \<^verbatim>\<open>invalidate()\<close>, the queue
  is empty, and \<open>curRowCounter\<close>, \<open>byteCounter\<close>, \<open>maxRows\<close> and \<open>rowsRetrieved\<close> are zero.
  No other member is written: \<open>totalRowCounter\<close> keeps its value.
\<close>

lemma clear_effect:
  assumes v: "list_all (\<lambda>a. h a \<noteq> None) (partitions s @ exceptions s)"
  shows "\<exists>h2. clear h s = Inr (h2, s\<lparr>partitions := [], curRowCounter := 0, byteCounter := 0,
                                     maxRows := 0, rowsRetrieved := 0\<rparr>)
            \<and> (\<forall>a\<in>set (partitions s @ exceptions s).
                  \<exists>p q. h a = Some p \<and> h2 a = Some q \<and> invalidations p < invalidations q)"
proof -
  from v have v1: "list_all (\<lambda>a. h a \<noteq> None) (partitions s)"
    and v2: "list_all (\<lambda>a. h a \<noteq> None) (exceptions s)" by simp_all
  from invalidateAll_valid [OF v1] obtain h1 where i1: "invalidateAll h (partitions s) = Inr h1"
    by blast
  have "list_all (\<lambda>a. h1 a \<noteq> None) (exceptions s)"
    using v2 invalidateAll_dom [OF i1] by (simp add: list_all_iff)
  from invalidateAll_valid [OF this] obtain h2 where i2: "invalidateAll h1 (exceptions s) = Inr h2"
    by blast
  have c: "clear h s = Inr (h2, s\<lparr>partitions := [], curRowCounter := 0, byteCounter := 0,
                                     maxRows := 0, rowsRetrieved := 0\<rparr>)"
    using i1 i2 by (simp add: clear_def)
  have "\<exists>p q. h a = Some p \<and> h2 a = Some q \<and> invalidations p < invalidations q"
    if a: "a \<in> set (partitions s @ exceptions s)" for a
  proof -
    from v a obtain p where hp: "h a = Some p" by (auto simp: list_all_iff)
    from invalidateAll_grows [OF i1 hp] obtain q1 where
      q1: "h1 a = Some q1" "invalidations p \<le> invalidations q1"
          "a \<in> set (partitions s) \<longrightarrow> invalidations p < invalidations q1" by blast
    from invalidateAll_grows [OF i2 q1(1)] obtain q2 where
      q2: "h2 a = Some q2" "invalidations q1 \<le> invalidations q2"
          "a \<in> set (exceptions s) \<longrightarrow> invalidations q1 < invalidations q2" by blast
    from a q1 q2 have "invalidations p < invalidations q2" by auto
    with hp q2(1) show ?thesis by blast
  qed
  with c show ?thesis by blast
qed

text \<open>
  Claim C8, evaluated on an exhausted cursor. The cursor over partition 2 (one row) with
  partition 3 in the exception list returns its row; then \<^verbatim>\<open>hasNextRow()\<close> is false.
  \<^verbatim>\<open>clear()\<close> does not fail, invalidates partition 3 and zeroes \<open>rowsRetrieved\<close>, the
  offsets and the budget; \<open>totalRowCounter\<close> is 1 before the call and 1 after it,
  where the claim has it zeroed with the other three counters, as the constructor does.
\<close>

theorem clear_keeps_totalRowCounter:
  "pullRows sampleRuntime (Suc 0) sampleStore (mkResultSet 7 [2] [3] [] (-1))
     = Inr ([[20]], sampleStore(2 \<mapsto> invalidate partB),
            (mkResultSet 7 [] [3] [] (-1))\<lparr>rowsRetrieved := 1, totalRowCounter := 1\<rparr>)
   \<and> hasNextRow (sampleStore(2 \<mapsto> invalidate partB))
        ((mkResultSet 7 [] [3] ([]::(nat \<times> byte list) list) (-1))\<lparr>rowsRetrieved := 1, totalRowCounter := 1\<rparr>)
     = Inr False
   \<and> clear (sampleStore(2 \<mapsto> invalidate partB))
        ((mkResultSet 7 [] [3] ([]::(nat \<times> byte list) list) (-1))\<lparr>rowsRetrieved := 1, totalRowCounter := 1\<rparr>)
     = Inr (sampleStore(2 \<mapsto> invalidate partB, 3 \<mapsto> invalidate partZ),
            (mkResultSet 7 [] [3] [] 0)\<lparr>totalRowCounter := 1\<rparr>)"
  by (simp add: eval_defs clear_def)

end
